theory Spec2Isabelle
  imports Main "HOL-Library.AList" "HOL-Library.Word"
begin

section \<open>Library functions the schema builder calls\<close>

text \<open>
  The builder of \<^verbatim>\<open>schema.go\<close> calls four functions of the Go standard library:
  \<^verbatim>\<open>reflect.StructTag.Lookup\<close>/\<^verbatim>\<open>Get\<close>, \<^verbatim>\<open>strings.Split\<close>, \<^verbatim>\<open>strconv.Atoi\<close> and
  \<^verbatim>\<open>json.Unmarshal\<close>. The first three are modelled here from their documented behaviour;
  the JSON decoder is a parameter of the builder.
\<close>

subsection \<open>Struct tags\<close>

text \<open>
  A struct tag is kept in its conventional parsed form, the list of its
  \<^verbatim>\<open>key:"value"\<close> pairs in the order they are written. \<^verbatim>\<open>Lookup\<close> returns the value of
  the first pair with the key; \<^verbatim>\<open>Get\<close> returns the empty string when there is none.
\<close>

type_synonym StructTag = "(string \<times> string) list"

definition Lookup :: "StructTag \<Rightarrow> string \<Rightarrow> string option" where
  "Lookup tag key = map_of tag key"

definition Get :: "StructTag \<Rightarrow> string \<Rightarrow> string" where
  "Get tag key = (case Lookup tag key of Some v \<Rightarrow> v | None \<Rightarrow> [])"

subsection \<open>\<^verbatim>\<open>strings.Split\<close> with a one-byte separator\<close>

text \<open>
  \<^verbatim>\<open>strings.Split(s, sep)\<close> cuts \<^verbatim>\<open>s\<close> at every occurrence of \<^verbatim>\<open>sep\<close>. The result of
  splitting the empty string is the one-element list holding the empty string.
\<close>

fun Split :: "string \<Rightarrow> char \<Rightarrow> string list" where
  "Split [] sep = [[]]"
| "Split (c # cs) sep =
     (if c = sep then [] # Split cs sep
      else (case Split cs sep of
              [] \<Rightarrow> [[c]]
            | w # ws \<Rightarrow> (c # w) # ws))"

subsection \<open>\<^verbatim>\<open>strconv.Atoi\<close>\<close>

datatype NumErrCause = ErrSyntax | ErrRange

datatype iface =
    INil
  | IBool bool
  | IFloat64 "64 word"
  | IString string
  | IArray "iface list"
  | IObject "(string \<times> iface) list"

text \<open>
  The errors the builder can return: the value of \<^verbatim>\<open>fmt.Errorf\<close> (its message), a
  \<^verbatim>\<open>*strconv.NumError\<close> (function name, offending text, cause), a \<^verbatim>\<open>*json.SyntaxError\<close>
  (message and offset). \<open>NilDereference\<close> stands for the run-time panic of writing through
  a nil \<^verbatim>\<open>*Schema\<close>.
\<close>

datatype error =
    ErrorString string
  | NumError string string NumErrCause
  | SyntaxError string nat
  | NilDereference

definition is_digit :: "char \<Rightarrow> bool" where
  "is_digit c \<longleftrightarrow> (48::int) \<le> of_char c \<and> (of_char c :: int) \<le> 57"

definition digit_val :: "char \<Rightarrow> int" where
  "digit_val c = of_char c - 48"

text \<open>
  The digit loop of \<^verbatim>\<open>strconv.ParseUint(s, 10, 64)\<close>: a byte that is no decimal digit is
  a syntax error; an accumulator that leaves the 64-bit range is a range error, reported
  at the digit where it happens.
\<close>

fun parse_digits :: "int \<Rightarrow> string \<Rightarrow> NumErrCause + int" where
  "parse_digits n [] = Inr n"
| "parse_digits n (c # cs) =
     (if \<not> is_digit c then Inl ErrSyntax
      else if n \<ge> (2 ^ 64 - 1) div 10 + 1 then Inl ErrRange
      else if n * 10 + digit_val c > 2 ^ 64 - 1 then Inl ErrRange
      else parse_digits (n * 10 + digit_val c) cs)"

text \<open>
  \<^verbatim>\<open>Atoi\<close> on a platform with 64-bit \<^verbatim>\<open>int\<close>: an optional sign, at least one decimal
  digit, a value between \<open>-2^63\<close> and \<open>2^63 - 1\<close>.
\<close>

definition Atoi :: "string \<Rightarrow> error + int" where
  "Atoi s =
     (if s = [] then Inl (NumError ''Atoi'' s ErrSyntax)
      else
        let neg = (hd s = CHR ''-'');
            ds = (if hd s = CHR ''+'' \<or> hd s = CHR ''-'' then tl s else s)
        in if ds = [] then Inl (NumError ''Atoi'' s ErrSyntax)
           else (case parse_digits 0 ds of
                   Inl cause \<Rightarrow> Inl (NumError ''Atoi'' s cause)
                 | Inr un \<Rightarrow>
                     if \<not> neg \<and> un \<ge> 2 ^ 63 then Inl (NumError ''Atoi'' s ErrRange)
                     else if neg \<and> un > 2 ^ 63 then Inl (NumError ''Atoi'' s ErrRange)
                     else Inr (if neg then - un else un)))"

subsection \<open>\<^verbatim>\<open>json.Unmarshal\<close> into an empty interface\<close>

type_synonym decoder = "string \<Rightarrow> error + iface"

section \<open>Type descriptors\<close>

text \<open>
  \<^verbatim>\<open>reflect.Type\<close> as the builder reads it. The kinds with components the builder walks
  are constructors of their own; every other kind is a \<open>BasicT\<close> with its kind (\<open>IntK\<close> for \<^verbatim>\<open>reflect.Int\<close>) and the
  text \<^verbatim>\<open>t.String()\<close>. A descriptor is a finite tree: the self-referential types on which
  the source recurses without bound are not values of this type.
\<close>

datatype Kind =
    BoolK
  | IntK | Int8K | Int16K | Int32K | Int64K
  | UintK | Uint8K | Uint16K | Uint32K | Uint64K | UintptrK
  | Float32K | Float64K
  | Complex64K | Complex128K
  | ChanK | FuncK | InterfaceK
  | StringK
  | UnsafePointerK

fun Kind_String :: "Kind \<Rightarrow> string" where
  "Kind_String BoolK = ''bool''"
| "Kind_String IntK = ''int''"
| "Kind_String Int8K = ''int8''"
| "Kind_String Int16K = ''int16''"
| "Kind_String Int32K = ''int32''"
| "Kind_String Int64K = ''int64''"
| "Kind_String UintK = ''uint''"
| "Kind_String Uint8K = ''uint8''"
| "Kind_String Uint16K = ''uint16''"
| "Kind_String Uint32K = ''uint32''"
| "Kind_String Uint64K = ''uint64''"
| "Kind_String UintptrK = ''uintptr''"
| "Kind_String Float32K = ''float32''"
| "Kind_String Float64K = ''float64''"
| "Kind_String Complex64K = ''complex64''"
| "Kind_String Complex128K = ''complex128''"
| "Kind_String ChanK = ''chan''"
| "Kind_String FuncK = ''func''"
| "Kind_String InterfaceK = ''interface''"
| "Kind_String StringK = ''string''"
| "Kind_String UnsafePointerK = ''unsafe.Pointer''"

datatype rtype =
    StructT "StructField list"
  | MapT rtype rtype
  | SliceT rtype
  | ArrayT nat rtype
  | PtrT rtype
  | BasicT Kind string
and StructField = StructField (Name: string) (Typ: rtype) (Tag: StructTag)

section \<open>The schema node\<close>

text \<open>
  The struct \<^verbatim>\<open>Schema\<close>. A nil pointer, map or slice is \<open>None\<close>; a nil interface is
  \<open>INil\<close>. The map \<^verbatim>\<open>Properties\<close> is an association list with one entry for each key, in
  the order the keys were first stored.
\<close>

datatype Schema = Schema
  (Type: string)
  (Description: string)
  (Items: "Schema option")
  (Properties: "(string \<times> Schema) list option")
  (Required: "string list option")
  (Format: string)
  (Enum: "iface list option")
  (Default: iface)
  (Example: iface)
  (Minimum: "int option")
  (Maximum: "int option")

definition Schema0 :: Schema where
  "Schema0 = Schema [] [] None None None [] None INil INil None None"

fun set_Type :: "string \<Rightarrow> Schema \<Rightarrow> Schema" where
  "set_Type v (Schema t d i p r f e df ex mn mx) = Schema v d i p r f e df ex mn mx"

fun set_Description :: "string \<Rightarrow> Schema \<Rightarrow> Schema" where
  "set_Description v (Schema t d i p r f e df ex mn mx) = Schema t v i p r f e df ex mn mx"

fun set_Items :: "Schema option \<Rightarrow> Schema \<Rightarrow> Schema" where
  "set_Items v (Schema t d i p r f e df ex mn mx) = Schema t d v p r f e df ex mn mx"

fun set_Properties :: "(string \<times> Schema) list option \<Rightarrow> Schema \<Rightarrow> Schema" where
  "set_Properties v (Schema t d i p r f e df ex mn mx) = Schema t d i v r f e df ex mn mx"

fun set_Required :: "string list option \<Rightarrow> Schema \<Rightarrow> Schema" where
  "set_Required v (Schema t d i p r f e df ex mn mx) = Schema t d i p v f e df ex mn mx"

fun set_Enum :: "iface list option \<Rightarrow> Schema \<Rightarrow> Schema" where
  "set_Enum v (Schema t d i p r f e df ex mn mx) = Schema t d i p r f v df ex mn mx"

fun set_Example :: "iface \<Rightarrow> Schema \<Rightarrow> Schema" where
  "set_Example v (Schema t d i p r f e df ex mn mx) = Schema t d i p r f e df v mn mx"

fun set_Minimum :: "int option \<Rightarrow> Schema \<Rightarrow> Schema" where
  "set_Minimum v (Schema t d i p r f e df ex mn mx) = Schema t d i p r f e df ex v mx"

fun set_Maximum :: "int option \<Rightarrow> Schema \<Rightarrow> Schema" where
  "set_Maximum v (Schema t d i p r f e df ex mn mx) = Schema t d i p r f e df ex mn v"

section \<open>GenerateSchema\<close>

text \<open>Lines 55 to 93: the annotations of one field refine the node built for its type.\<close>

definition tag_description :: "StructTag \<Rightarrow> Schema \<Rightarrow> Schema" where
  "tag_description tag s =
     (case Lookup tag ''description'' of
        Some d \<Rightarrow> set_Description d s
      | None \<Rightarrow> s)"

definition tag_enum :: "StructTag \<Rightarrow> Schema \<Rightarrow> Schema" where
  "tag_enum tag s =
     (case Lookup tag ''enum'' of
        Some e \<Rightarrow> set_Enum (Some (map IString (Split e CHR '',''))) s
      | None \<Rightarrow> s)"

definition tag_minimum :: "StructTag \<Rightarrow> Schema \<Rightarrow> error + Schema" where
  "tag_minimum tag s =
     (case Lookup tag ''minimum'' of
        Some d \<Rightarrow> (case Atoi d of
                     Inl err \<Rightarrow> Inl err
                   | Inr mn \<Rightarrow> Inr (set_Minimum (Some mn) s))
      | None \<Rightarrow> Inr s)"

definition tag_maximum :: "StructTag \<Rightarrow> Schema \<Rightarrow> error + Schema" where
  "tag_maximum tag s =
     (case Lookup tag ''maximum'' of
        Some d \<Rightarrow> (case Atoi d of
                     Inl err \<Rightarrow> Inl err
                   | Inr mx \<Rightarrow> Inr (set_Maximum (Some mx) s))
      | None \<Rightarrow> Inr s)"

definition tag_example :: "decoder \<Rightarrow> StructTag \<Rightarrow> Schema \<Rightarrow> error + Schema" where
  "tag_example Unmarshal tag s =
     (case Lookup tag ''example'' of
        Some e \<Rightarrow>
          if Type s = ''string'' then Inr (set_Example (IString e) s)
          else (case Unmarshal e of
                  Inl err \<Rightarrow> Inl err
                | Inr v \<Rightarrow> Inr (set_Example v s))
      | None \<Rightarrow> Inr s)"

definition field_tags :: "decoder \<Rightarrow> StructTag \<Rightarrow> Schema \<Rightarrow> error + Schema" where
  "field_tags Unmarshal tag s =
     (case tag_minimum tag (tag_enum tag (tag_description tag s)) of
        Inl err \<Rightarrow> Inl err
      | Inr s1 \<Rightarrow>
          (case tag_maximum tag s1 of
             Inl err \<Rightarrow> Inl err
           | Inr s2 \<Rightarrow> tag_example Unmarshal tag s2))"

text \<open>Lines 42 to 47 and 95 to 100: the key of the field and whether it may be omitted.\<close>

definition field_name :: "StructField \<Rightarrow> string" where
  "field_name f =
     (let jsonTags = Split (Get (Tag f) ''json'') CHR '',''
      in if length jsonTags > 0 then jsonTags ! 0 else Name f)"

definition field_optional :: "StructField \<Rightarrow> bool" where
  "field_optional f =
     (let jsonTags = Split (Get (Tag f) ''json'') CHR '',''
      in fold (\<lambda>tag optional. if tag = ''omitempty'' then True else optional)
           (drop 1 jsonTags) False)"

text \<open>
  The builder. The loop over the fields of a struct is \<open>struct_fields\<close>, with the map
  \<^verbatim>\<open>properties\<close> and the slice \<^verbatim>\<open>required\<close> as accumulators; \<open>Inl\<close> is a \<^verbatim>\<open>return nil, err\<close>
  out of the loop. The source stores the pointer \<^verbatim>\<open>s\<close> in the map before the annotations
  write through it; here the refined node is stored, which is the same map whenever the
  loop goes on. The source dereferences \<^verbatim>\<open>s\<close> after checking only \<^verbatim>\<open>err\<close>; the branch
  where both are nil is the panic \<open>NilDereference\<close>. No call returns two nils (lemma
  \<open>GenerateSchema_shape\<close>), so the branch is never taken.
\<close>

lemma size_Typ_less: "size (Typ f) < size f"
  by (cases f) simp

function GenerateSchema :: "decoder \<Rightarrow> rtype \<Rightarrow> Schema option \<times> error option"
and struct_fields ::
  "decoder \<Rightarrow> StructField list \<Rightarrow> (string \<times> Schema) list \<Rightarrow> string list
     \<Rightarrow> error + ((string \<times> Schema) list \<times> string list)"
where
  "GenerateSchema Unmarshal (StructT fs) =
     (case struct_fields Unmarshal fs [] [] of
        Inl err \<Rightarrow> (None, Some err)
      | Inr (properties, required) \<Rightarrow>
          (Some (set_Required (if length required > 0 then Some required else None)
                  (set_Properties (if length properties > 0 then Some properties else None)
                    (set_Type ''object'' Schema0))),
           None))"
| "GenerateSchema Unmarshal (MapT k v) = (Some Schema0, None)"
| "GenerateSchema Unmarshal (SliceT el) =
     (case GenerateSchema Unmarshal el of
        (s, Some err) \<Rightarrow> (None, Some err)
      | (s, None) \<Rightarrow> (Some (set_Items s (set_Type ''array'' Schema0)), None))"
| "GenerateSchema Unmarshal (ArrayT n el) =
     (case GenerateSchema Unmarshal el of
        (s, Some err) \<Rightarrow> (None, Some err)
      | (s, None) \<Rightarrow> (Some (set_Items s (set_Type ''array'' Schema0)), None))"
| "GenerateSchema Unmarshal (PtrT el) = GenerateSchema Unmarshal el"
| "GenerateSchema Unmarshal (BasicT k nm) =
     (if k \<in> {IntK, Int8K, Int16K, Int32K, Int64K} then
        (Some (set_Type ''integer'' Schema0), None)
      else if k \<in> {UintK, Uint8K, Uint16K, Uint32K, Uint64K} then
        (Some (set_Minimum (Some 0) (set_Type ''integer'' Schema0)), None)
      else if k \<in> {Float32K, Float64K} then (Some (set_Type ''number'' Schema0), None)
      else if k = BoolK then (Some (set_Type ''boolean'' Schema0), None)
      else if k = StringK then (Some (set_Type ''string'' Schema0), None)
      else (None, Some (ErrorString
              (''unsupported type '' @ Kind_String k @ '' from '' @ nm))))"
| "struct_fields Unmarshal [] properties required = Inr (properties, required)"
| "struct_fields Unmarshal (f # fs) properties required =
     (case GenerateSchema Unmarshal (Typ f) of
        (s, Some err) \<Rightarrow> Inl err
      | (None, None) \<Rightarrow> Inl NilDereference
      | (Some s, None) \<Rightarrow>
          (case field_tags Unmarshal (Tag f) s of
             Inl err \<Rightarrow> Inl err
           | Inr s' \<Rightarrow>
               struct_fields Unmarshal fs
                 (AList.update (field_name f) s' properties)
                 (if \<not> field_optional f then required @ [field_name f] else required)))"
  by pat_completeness auto

termination
proof (relation "measure (\<lambda>x. case x of
                    Inl (um, t) \<Rightarrow> size t
                  | Inr (um, fs, ps, rs) \<Rightarrow> size_list size fs)")
  show "wf (measure (\<lambda>x. case x of
                    Inl (um, t) \<Rightarrow> size t
                  | Inr (um, fs, ps, rs) \<Rightarrow> size_list size fs))"
    by simp
next
  fix Unmarshal :: decoder and f :: StructField and fs :: "StructField list"
    and properties :: "(string \<times> Schema) list" and required :: "string list"
  show "(Inl (Unmarshal, Typ f), Inr (Unmarshal, f # fs, properties, required))
          \<in> measure (\<lambda>x. case x of
                    Inl (um, t) \<Rightarrow> size t
                  | Inr (um, fs, ps, rs) \<Rightarrow> size_list size fs)"
    using size_Typ_less [of f] by simp
qed simp_all

text \<open>Lines 49 to 93 for one field: the node of its type, refined by its annotations.\<close>

definition field_node :: "decoder \<Rightarrow> StructField \<Rightarrow> error + Schema" where
  "field_node Unmarshal f =
     (case GenerateSchema Unmarshal (Typ f) of
        (s, Some err) \<Rightarrow> Inl err
      | (None, None) \<Rightarrow> Inl NilDereference
      | (Some s, None) \<Rightarrow> field_tags Unmarshal (Tag f) s)"

section \<open>The walk and its failures, as the specification describes them\<close>

text \<open>
  The descriptors the builder is called on while it walks a descriptor, in the order of
  the calls, when no call fails. The key and element types of a map are not walked.
\<close>

fun walked :: "rtype \<Rightarrow> rtype list"
and walked_fields :: "StructField list \<Rightarrow> rtype list"
where
  "walked (StructT fs) = StructT fs # walked_fields fs"
| "walked (MapT k v) = [MapT k v]"
| "walked (SliceT el) = SliceT el # walked el"
| "walked (ArrayT n el) = ArrayT n el # walked el"
| "walked (PtrT el) = PtrT el # walked el"
| "walked (BasicT k nm) = [BasicT k nm]"
| "walked_fields [] = []"
| "walked_fields (StructField name typ tag # fs) = walked typ @ walked_fields fs"

text \<open>The kinds that reach the default branch of the switch.\<close>

definition unsupported :: "Kind \<Rightarrow> bool" where
  "unsupported k \<longleftrightarrow>
     k \<in> {UintptrK, Complex64K, Complex128K, ChanK, FuncK, InterfaceK, UnsafePointerK}"

text \<open>The kind text of the node a descriptor is mapped to.\<close>

fun node_Type :: "rtype \<Rightarrow> string" where
  "node_Type (StructT fs) = ''object''"
| "node_Type (MapT k v) = []"
| "node_Type (SliceT el) = ''array''"
| "node_Type (ArrayT n el) = ''array''"
| "node_Type (PtrT el) = node_Type el"
| "node_Type (BasicT k nm) =
     (if k \<in> {IntK, Int8K, Int16K, Int32K, Int64K, UintK, Uint8K, Uint16K, Uint32K, Uint64K}
      then ''integer''
      else if k \<in> {Float32K, Float64K} then ''number''
      else if k = BoolK then ''boolean''
      else if k = StringK then ''string''
      else [])"

text \<open>
  Every failure the walk of a descriptor can meet, in the order of the walk: an unsupported
  kind, a bound annotation that is no integer, an example annotation of a non-string
  node that the decoder rejects.
\<close>

definition atoi_errors :: "StructTag \<Rightarrow> string \<Rightarrow> error list" where
  "atoi_errors tag key =
     (case Lookup tag key of
        None \<Rightarrow> []
      | Some d \<Rightarrow> (case Atoi d of Inl err \<Rightarrow> [err] | Inr n \<Rightarrow> []))"

definition example_errors :: "decoder \<Rightarrow> StructTag \<Rightarrow> string \<Rightarrow> error list" where
  "example_errors Unmarshal tag ty =
     (case Lookup tag ''example'' of
        None \<Rightarrow> []
      | Some e \<Rightarrow>
          if ty = ''string'' then []
          else (case Unmarshal e of Inl err \<Rightarrow> [err] | Inr v \<Rightarrow> []))"

definition tag_errors :: "decoder \<Rightarrow> StructTag \<Rightarrow> string \<Rightarrow> error list" where
  "tag_errors Unmarshal tag ty =
     atoi_errors tag ''minimum'' @ atoi_errors tag ''maximum'' @ example_errors Unmarshal tag ty"

fun errors :: "decoder \<Rightarrow> rtype \<Rightarrow> error list"
and errors_fields :: "decoder \<Rightarrow> StructField list \<Rightarrow> error list"
where
  "errors Unmarshal (StructT fs) = errors_fields Unmarshal fs"
| "errors Unmarshal (MapT k v) = []"
| "errors Unmarshal (SliceT el) = errors Unmarshal el"
| "errors Unmarshal (ArrayT n el) = errors Unmarshal el"
| "errors Unmarshal (PtrT el) = errors Unmarshal el"
| "errors Unmarshal (BasicT k nm) =
     (if unsupported k
      then [ErrorString (''unsupported type '' @ Kind_String k @ '' from '' @ nm)]
      else [])"
| "errors_fields Unmarshal [] = []"
| "errors_fields Unmarshal (StructField name typ tag # fs) =
     errors Unmarshal typ @ tag_errors Unmarshal tag (node_Type typ)
       @ errors_fields Unmarshal fs"

definition field_errors :: "decoder \<Rightarrow> StructField \<Rightarrow> error list" where
  "field_errors Unmarshal f =
     errors Unmarshal (Typ f) @ tag_errors Unmarshal (Tag f) (node_Type (Typ f))"

fun first :: "'a list \<Rightarrow> 'a option" where
  "first [] = None"
| "first (x # xs) = Some x"

fun err_of :: "error + 'a \<Rightarrow> error option" where
  "err_of (Inl e) = Some e"
| "err_of (Inr x) = None"

text \<open>
  The name of a field as the specification resolves it: the name the serialization
  annotation declares when the field has an annotation that declares one (a name part
  that is not empty), the declared identifier otherwise.
\<close>

definition declares_name :: "StructField \<Rightarrow> bool" where
  "declares_name f \<longleftrightarrow>
     (case Lookup (Tag f) ''json'' of
        None \<Rightarrow> False
      | Some v \<Rightarrow> hd (Split v CHR '','') \<noteq> [])"

definition resolved_name :: "StructField \<Rightarrow> string" where
  "resolved_name f =
     (case Lookup (Tag f) ''json'' of
        None \<Rightarrow> Name f
      | Some v \<Rightarrow> if hd (Split v CHR '','') = [] then Name f else hd (Split v CHR '',''))"

text \<open>
  A field is omittable when its serialization annotation carries the option
  \<^verbatim>\<open>omitempty\<close>.
\<close>

definition omittable :: "StructField \<Rightarrow> bool" where
  "omittable f \<longleftrightarrow>
     (case Lookup (Tag f) ''json'' of
        None \<Rightarrow> False
      | Some v \<Rightarrow> ''omitempty'' \<in> set (tl (Split v CHR '','')))"

text \<open>
  A decoder for the evaluations below. It is \<^verbatim>\<open>json.Unmarshal\<close> on the five texts it
  lists (the number is the \<^verbatim>\<open>float64\<close> 42) and only there.
\<close>

definition Unmarshal_sample :: decoder where
  "Unmarshal_sample e =
     (if e = ''null'' then Inr INil
      else if e = ''true'' then Inr (IBool True)
      else if e = ''false'' then Inr (IBool False)
      else if e = ''42'' then Inr (IFloat64 0x4045000000000000)
      else if e = ''abc''
        then Inl (SyntaxError ''invalid character 'a' looking for beginning of value'' 1)
      else Inl (SyntaxError ''unexpected end of JSON input'' 0))"

text \<open>The field with its type wrapped in a pointer.\<close>

definition wrap_ptr :: "StructField \<Rightarrow> StructField" where
  "wrap_ptr f = StructField (Name f) (PtrT (Typ f)) (Tag f)"

section \<open>The builder over an explicit store\<close>

text \<open>
  The source allocates every node with \<^verbatim>\<open>&Schema{}\<close>, stores the pointer of a field's
  node in the map \<^verbatim>\<open>properties\<close> and only then writes the annotations through that
  pointer. Here the builder is written once more with the nodes in an explicit store: a
  list of cells, where an address is an index and an allocation appends a cell.
\<close>

type_synonym addr = nat

record cell =
  cType :: string
  cDescription :: string
  cItems :: "addr option"
  cProperties :: "(string \<times> addr) list option"
  cRequired :: "string list option"
  cFormat :: string
  cEnum :: "iface list option"
  cDefault :: iface
  cExample :: iface
  cMinimum :: "int option"
  cMaximum :: "int option"

type_synonym heap = "cell list"

definition cell0 :: cell where
  "cell0 = \<lparr>cType = [], cDescription = [], cItems = None, cProperties = None,
            cRequired = None, cFormat = [], cEnum = None, cDefault = INil,
            cExample = INil, cMinimum = None, cMaximum = None\<rparr>"

definition new :: "cell \<Rightarrow> heap \<Rightarrow> addr \<times> heap" where
  "new c h = (length h, h @ [c])"

definition store :: "addr \<Rightarrow> (cell \<Rightarrow> cell) \<Rightarrow> heap \<Rightarrow> heap" where
  "store a upd h = h[a := upd (h ! a)]"

text \<open>Lines 55 to 93 again, writing through the pointer \<open>s\<close>.\<close>

definition tag_description_st :: "StructTag \<Rightarrow> addr \<Rightarrow> heap \<Rightarrow> heap" where
  "tag_description_st tag s h =
     (case Lookup tag ''description'' of
        Some d \<Rightarrow> store s (\<lambda>c. c\<lparr>cDescription := d\<rparr>) h
      | None \<Rightarrow> h)"

definition tag_enum_st :: "StructTag \<Rightarrow> addr \<Rightarrow> heap \<Rightarrow> heap" where
  "tag_enum_st tag s h =
     (case Lookup tag ''enum'' of
        Some e \<Rightarrow> store s (\<lambda>c. c\<lparr>cEnum := Some (map IString (Split e CHR '',''))\<rparr>) h
      | None \<Rightarrow> h)"

definition tag_minimum_st :: "StructTag \<Rightarrow> addr \<Rightarrow> heap \<Rightarrow> error option \<times> heap" where
  "tag_minimum_st tag s h =
     (case Lookup tag ''minimum'' of
        Some d \<Rightarrow> (case Atoi d of
                     Inl err \<Rightarrow> (Some err, h)
                   | Inr mn \<Rightarrow> (None, store s (\<lambda>c. c\<lparr>cMinimum := Some mn\<rparr>) h))
      | None \<Rightarrow> (None, h))"

definition tag_maximum_st :: "StructTag \<Rightarrow> addr \<Rightarrow> heap \<Rightarrow> error option \<times> heap" where
  "tag_maximum_st tag s h =
     (case Lookup tag ''maximum'' of
        Some d \<Rightarrow> (case Atoi d of
                     Inl err \<Rightarrow> (Some err, h)
                   | Inr mx \<Rightarrow> (None, store s (\<lambda>c. c\<lparr>cMaximum := Some mx\<rparr>) h))
      | None \<Rightarrow> (None, h))"

definition tag_example_st :: "decoder \<Rightarrow> StructTag \<Rightarrow> addr \<Rightarrow> heap \<Rightarrow> error option \<times> heap" where
  "tag_example_st Unmarshal tag s h =
     (case Lookup tag ''example'' of
        Some e \<Rightarrow>
          if cType (h ! s) = ''string'' then (None, store s (\<lambda>c. c\<lparr>cExample := IString e\<rparr>) h)
          else (case Unmarshal e of
                  Inl err \<Rightarrow> (Some err, h)
                | Inr v \<Rightarrow> (None, store s (\<lambda>c. c\<lparr>cExample := v\<rparr>) h))
      | None \<Rightarrow> (None, h))"

definition field_tags_st :: "decoder \<Rightarrow> StructTag \<Rightarrow> addr \<Rightarrow> heap \<Rightarrow> error option \<times> heap" where
  "field_tags_st Unmarshal tag s h =
     (case tag_minimum_st tag s (tag_enum_st tag s (tag_description_st tag s h)) of
        (Some err, h1) \<Rightarrow> (Some err, h1)
      | (None, h1) \<Rightarrow>
          (case tag_maximum_st tag s h1 of
             (Some err, h2) \<Rightarrow> (Some err, h2)
           | (None, h2) \<Rightarrow> tag_example_st Unmarshal tag s h2))"

text \<open>
  The builder over the store. Every call allocates the node \<^verbatim>\<open>schema\<close> first; the leaf
  cases allocate and return a second node.
\<close>

function GenerateSchema_st ::
  "decoder \<Rightarrow> rtype \<Rightarrow> heap \<Rightarrow> (addr option \<times> error option) \<times> heap"
and struct_fields_st ::
  "decoder \<Rightarrow> StructField list \<Rightarrow> (string \<times> addr) list \<Rightarrow> string list \<Rightarrow> heap
     \<Rightarrow> (error + ((string \<times> addr) list \<times> string list)) \<times> heap"
where
  "GenerateSchema_st Unmarshal (StructT fs) h =
     (let (schema, h1) = new cell0 h;
          h2 = store schema (\<lambda>c. c\<lparr>cType := ''object''\<rparr>) h1
      in case struct_fields_st Unmarshal fs [] [] h2 of
           (Inl err, h3) \<Rightarrow> ((None, Some err), h3)
         | (Inr (properties, required), h3) \<Rightarrow>
             let h4 = (if length properties > 0
                       then store schema (\<lambda>c. c\<lparr>cProperties := Some properties\<rparr>) h3
                       else h3);
                 h5 = (if length required > 0
                       then store schema (\<lambda>c. c\<lparr>cRequired := Some required\<rparr>) h4
                       else h4)
             in ((Some schema, None), h5))"
| "GenerateSchema_st Unmarshal (MapT k v) h =
     (let (schema, h1) = new cell0 h in ((Some schema, None), h1))"
| "GenerateSchema_st Unmarshal (SliceT el) h =
     (let (schema, h1) = new cell0 h;
          h2 = store schema (\<lambda>c. c\<lparr>cType := ''array''\<rparr>) h1
      in case GenerateSchema_st Unmarshal el h2 of
           ((s, Some err), h3) \<Rightarrow> ((None, Some err), h3)
         | ((s, None), h3) \<Rightarrow>
             ((Some schema, None), store schema (\<lambda>c. c\<lparr>cItems := s\<rparr>) h3))"
| "GenerateSchema_st Unmarshal (ArrayT n el) h =
     (let (schema, h1) = new cell0 h;
          h2 = store schema (\<lambda>c. c\<lparr>cType := ''array''\<rparr>) h1
      in case GenerateSchema_st Unmarshal el h2 of
           ((s, Some err), h3) \<Rightarrow> ((None, Some err), h3)
         | ((s, None), h3) \<Rightarrow>
             ((Some schema, None), store schema (\<lambda>c. c\<lparr>cItems := s\<rparr>) h3))"
| "GenerateSchema_st Unmarshal (PtrT el) h =
     (let (schema, h1) = new cell0 h in GenerateSchema_st Unmarshal el h1)"
| "GenerateSchema_st Unmarshal (BasicT k nm) h =
     (let (schema, h1) = new cell0 h
      in if k \<in> {IntK, Int8K, Int16K, Int32K, Int64K} then
           (let (p, h2) = new (cell0\<lparr>cType := ''integer''\<rparr>) h1 in ((Some p, None), h2))
         else if k \<in> {UintK, Uint8K, Uint16K, Uint32K, Uint64K} then
           (let (p, h2) = new (cell0\<lparr>cType := ''integer'', cMinimum := Some 0\<rparr>) h1
            in ((Some p, None), h2))
         else if k \<in> {Float32K, Float64K} then
           (let (p, h2) = new (cell0\<lparr>cType := ''number''\<rparr>) h1 in ((Some p, None), h2))
         else if k = BoolK then
           (let (p, h2) = new (cell0\<lparr>cType := ''boolean''\<rparr>) h1 in ((Some p, None), h2))
         else if k = StringK then
           (let (p, h2) = new (cell0\<lparr>cType := ''string''\<rparr>) h1 in ((Some p, None), h2))
         else ((None, Some (ErrorString
                 (''unsupported type '' @ Kind_String k @ '' from '' @ nm))), h1))"
| "struct_fields_st Unmarshal [] properties required h = (Inr (properties, required), h)"
| "struct_fields_st Unmarshal (f # fs) properties required h =
     (case GenerateSchema_st Unmarshal (Typ f) h of
        ((s, Some err), h1) \<Rightarrow> (Inl err, h1)
      | ((None, None), h1) \<Rightarrow> (Inl NilDereference, h1)
      | ((Some s, None), h1) \<Rightarrow>
          (case field_tags_st Unmarshal (Tag f) s h1 of
             (Some err, h2) \<Rightarrow> (Inl err, h2)
           | (None, h2) \<Rightarrow>
               struct_fields_st Unmarshal fs
                 (AList.update (field_name f) s properties)
                 (if \<not> field_optional f then required @ [field_name f] else required)
                 h2))"
  by pat_completeness auto

termination
proof (relation "measure (\<lambda>x. case x of
                    Inl (um, t, h) \<Rightarrow> size t
                  | Inr (um, fs, ps, rs, h) \<Rightarrow> size_list size fs)")
  show "wf (measure (\<lambda>x. case x of
                    Inl (um, t, h) \<Rightarrow> size t
                  | Inr (um, fs, ps, rs, h) \<Rightarrow> size_list size fs))"
    by simp
next
  fix Unmarshal :: decoder and f :: StructField and fs :: "StructField list"
    and properties :: "(string \<times> addr) list" and required :: "string list" and h :: heap
  show "(Inl (Unmarshal, Typ f, h), Inr (Unmarshal, f # fs, properties, required, h))
          \<in> measure (\<lambda>x. case x of
                    Inl (um, t, h) \<Rightarrow> size t
                  | Inr (um, fs, ps, rs, h) \<Rightarrow> size_list size fs)"
    using size_Typ_less [of f] by simp
qed simp_all

text \<open>
  The tree of nodes behind an address: \<open>repr h a s\<close> holds when the cells reachable from
  \<open>a\<close> in \<open>h\<close> spell out the node \<open>s\<close>, every pointer leading to a later address.
\<close>

fun repr :: "heap \<Rightarrow> addr \<Rightarrow> Schema \<Rightarrow> bool"
and repr_props :: "heap \<Rightarrow> addr \<Rightarrow> (string \<times> addr) list \<Rightarrow> (string \<times> Schema) list \<Rightarrow> bool"
where
  "repr h a (Schema t d i p r f e df ex mn mx) \<longleftrightarrow>
     a < length h
     \<and> cType (h ! a) = t \<and> cDescription (h ! a) = d \<and> cRequired (h ! a) = r
     \<and> cFormat (h ! a) = f \<and> cEnum (h ! a) = e \<and> cDefault (h ! a) = df
     \<and> cExample (h ! a) = ex \<and> cMinimum (h ! a) = mn \<and> cMaximum (h ! a) = mx
     \<and> (case i of
           None \<Rightarrow> cItems (h ! a) = None
         | Some s \<Rightarrow> (case cItems (h ! a) of None \<Rightarrow> False | Some c \<Rightarrow> a < c \<and> repr h c s))
     \<and> (case p of
           None \<Rightarrow> cProperties (h ! a) = None
         | Some ps \<Rightarrow> (case cProperties (h ! a) of
                         None \<Rightarrow> False
                       | Some cps \<Rightarrow> repr_props h a cps ps))"
| "repr_props h a cps [] \<longleftrightarrow> cps = []"
| "repr_props h a cps ((k, s) # ps) \<longleftrightarrow>
     (case cps of
        [] \<Rightarrow> False
      | (k', c) # cps' \<Rightarrow> k' = k \<and> a < c \<and> repr h c s \<and> repr_props h a cps' ps)"

text \<open>
  Two stores agree from an address on; all cells but one are the same; a run from a store
  refines a result of the builder on values.
\<close>

definition agree_from :: "addr \<Rightarrow> heap \<Rightarrow> heap \<Rightarrow> bool" where
  "agree_from a h h' \<longleftrightarrow>
     length h \<le> length h' \<and> (\<forall>i. a \<le> i \<and> i < length h \<longrightarrow> h' ! i = h ! i)"

definition frame :: "addr \<Rightarrow> heap \<Rightarrow> heap \<Rightarrow> bool" where
  "frame a h h' \<longleftrightarrow> length h' = length h \<and> (\<forall>i. i \<noteq> a \<longrightarrow> h' ! i = h ! i)"

definition refines ::
  "heap \<Rightarrow> (addr option \<times> error option) \<times> heap \<Rightarrow> Schema option \<times> error option \<Rightarrow> bool"
where
  "refines h r g \<longleftrightarrow>
     agree_from 0 h (snd r) \<and> snd (fst r) = snd g
     \<and> (case fst g of
           None \<Rightarrow> fst (fst r) = None
         | Some s \<Rightarrow> (\<exists>a. fst (fst r) = Some a \<and> length h \<le> a \<and> repr (snd r) a s))"

section \<open>Properties of the builder\<close>

subsection \<open>Field selectors after an assignment\<close>

lemma sel_set_Type [simp]:
  "Type (set_Type v s) = v"
  "Description (set_Type v s) = Description s"
  "Items (set_Type v s) = Items s"
  "Properties (set_Type v s) = Properties s"
  "Required (set_Type v s) = Required s"
  "Format (set_Type v s) = Format s"
  "Enum (set_Type v s) = Enum s"
  "Default (set_Type v s) = Default s"
  "Example (set_Type v s) = Example s"
  "Minimum (set_Type v s) = Minimum s"
  "Maximum (set_Type v s) = Maximum s"
  by (cases s; simp)+

lemma sel_set_Description [simp]:
  "Type (set_Description v s) = Type s"
  "Description (set_Description v s) = v"
  "Items (set_Description v s) = Items s"
  "Properties (set_Description v s) = Properties s"
  "Required (set_Description v s) = Required s"
  "Format (set_Description v s) = Format s"
  "Enum (set_Description v s) = Enum s"
  "Default (set_Description v s) = Default s"
  "Example (set_Description v s) = Example s"
  "Minimum (set_Description v s) = Minimum s"
  "Maximum (set_Description v s) = Maximum s"
  by (cases s; simp)+

lemma sel_set_Items [simp]:
  "Type (set_Items v s) = Type s"
  "Description (set_Items v s) = Description s"
  "Items (set_Items v s) = v"
  "Properties (set_Items v s) = Properties s"
  "Required (set_Items v s) = Required s"
  "Format (set_Items v s) = Format s"
  "Enum (set_Items v s) = Enum s"
  "Default (set_Items v s) = Default s"
  "Example (set_Items v s) = Example s"
  "Minimum (set_Items v s) = Minimum s"
  "Maximum (set_Items v s) = Maximum s"
  by (cases s; simp)+

lemma sel_set_Properties [simp]:
  "Type (set_Properties v s) = Type s"
  "Description (set_Properties v s) = Description s"
  "Items (set_Properties v s) = Items s"
  "Properties (set_Properties v s) = v"
  "Required (set_Properties v s) = Required s"
  "Format (set_Properties v s) = Format s"
  "Enum (set_Properties v s) = Enum s"
  "Default (set_Properties v s) = Default s"
  "Example (set_Properties v s) = Example s"
  "Minimum (set_Properties v s) = Minimum s"
  "Maximum (set_Properties v s) = Maximum s"
  by (cases s; simp)+

lemma sel_set_Required [simp]:
  "Type (set_Required v s) = Type s"
  "Description (set_Required v s) = Description s"
  "Items (set_Required v s) = Items s"
  "Properties (set_Required v s) = Properties s"
  "Required (set_Required v s) = v"
  "Format (set_Required v s) = Format s"
  "Enum (set_Required v s) = Enum s"
  "Default (set_Required v s) = Default s"
  "Example (set_Required v s) = Example s"
  "Minimum (set_Required v s) = Minimum s"
  "Maximum (set_Required v s) = Maximum s"
  by (cases s; simp)+

lemma sel_set_Enum [simp]:
  "Type (set_Enum v s) = Type s"
  "Description (set_Enum v s) = Description s"
  "Items (set_Enum v s) = Items s"
  "Properties (set_Enum v s) = Properties s"
  "Required (set_Enum v s) = Required s"
  "Format (set_Enum v s) = Format s"
  "Enum (set_Enum v s) = v"
  "Default (set_Enum v s) = Default s"
  "Example (set_Enum v s) = Example s"
  "Minimum (set_Enum v s) = Minimum s"
  "Maximum (set_Enum v s) = Maximum s"
  by (cases s; simp)+

lemma sel_set_Example [simp]:
  "Type (set_Example v s) = Type s"
  "Description (set_Example v s) = Description s"
  "Items (set_Example v s) = Items s"
  "Properties (set_Example v s) = Properties s"
  "Required (set_Example v s) = Required s"
  "Format (set_Example v s) = Format s"
  "Enum (set_Example v s) = Enum s"
  "Default (set_Example v s) = Default s"
  "Example (set_Example v s) = v"
  "Minimum (set_Example v s) = Minimum s"
  "Maximum (set_Example v s) = Maximum s"
  by (cases s; simp)+

lemma sel_set_Minimum [simp]:
  "Type (set_Minimum v s) = Type s"
  "Description (set_Minimum v s) = Description s"
  "Items (set_Minimum v s) = Items s"
  "Properties (set_Minimum v s) = Properties s"
  "Required (set_Minimum v s) = Required s"
  "Format (set_Minimum v s) = Format s"
  "Enum (set_Minimum v s) = Enum s"
  "Default (set_Minimum v s) = Default s"
  "Example (set_Minimum v s) = Example s"
  "Minimum (set_Minimum v s) = v"
  "Maximum (set_Minimum v s) = Maximum s"
  by (cases s; simp)+

lemma sel_set_Maximum [simp]:
  "Type (set_Maximum v s) = Type s"
  "Description (set_Maximum v s) = Description s"
  "Items (set_Maximum v s) = Items s"
  "Properties (set_Maximum v s) = Properties s"
  "Required (set_Maximum v s) = Required s"
  "Format (set_Maximum v s) = Format s"
  "Enum (set_Maximum v s) = Enum s"
  "Default (set_Maximum v s) = Default s"
  "Example (set_Maximum v s) = Example s"
  "Minimum (set_Maximum v s) = Minimum s"
  "Maximum (set_Maximum v s) = v"
  by (cases s; simp)+

subsection \<open>The loop over the fields\<close>

lemma Split_not_Nil [simp]: "Split s sep \<noteq> []"
  by (induction s) (auto split: list.splits)

lemma field_name_hd: "field_name f = hd (Split (Get (Tag f) ''json'') CHR '','')"
  by (simp add: field_name_def Let_def hd_conv_nth)

lemma fold_omitempty:
  "fold (\<lambda>tag optional. if tag = ''omitempty'' then True else optional) xs b
     \<longleftrightarrow> b \<or> ''omitempty'' \<in> set xs"
  by (induction xs arbitrary: b) auto

lemma field_optional_iff:
  "field_optional f \<longleftrightarrow> ''omitempty'' \<in> set (tl (Split (Get (Tag f) ''json'') CHR '',''))"
  by (simp add: field_optional_def Let_def fold_omitempty drop_Suc)

lemma struct_fields_Cons:
  "struct_fields um (f # fs) ps rs =
     (case field_node um f of
        Inl err \<Rightarrow> Inl err
      | Inr s' \<Rightarrow>
          struct_fields um fs (AList.update (field_name f) s' ps)
            (if \<not> field_optional f then rs @ [field_name f] else rs))"
  by (simp add: field_node_def split: prod.splits option.splits)

lemma rtype_induct_aux:
  assumes "\<And>fs. (\<And>f. f \<in> set fs \<Longrightarrow> P (Typ f)) \<Longrightarrow> P (StructT fs)"
    and "\<And>k v. P k \<Longrightarrow> P v \<Longrightarrow> P (MapT k v)"
    and "\<And>el. P el \<Longrightarrow> P (SliceT el)"
    and "\<And>n el. P el \<Longrightarrow> P (ArrayT n el)"
    and "\<And>el. P el \<Longrightarrow> P (PtrT el)"
    and "\<And>k nm. P (BasicT k nm)"
  shows "P t" and "P (Typ f)"
proof (induction t and f)
  case (StructT x)
  then show ?case by (intro assms(1)) simp
next
  case (StructField x1 x2 x3)
  then show ?case by simp
qed (auto intro: assms)

lemmas rtype_induct [case_names StructT MapT SliceT ArrayT PtrT BasicT] = rtype_induct_aux(1)

lemma GenerateSchema_shape:
  "(\<exists>s. GenerateSchema um t = (Some s, None)) \<or> (\<exists>e. GenerateSchema um t = (None, Some e))"
proof (induction t rule: rtype_induct)
  case (StructT fs)
  show ?case by (simp split: sum.splits prod.splits)
next
  case (MapT k v)
  show ?case by simp
next
  case (SliceT el)
  show ?case by (simp split: prod.splits option.splits)
next
  case (ArrayT n el)
  show ?case by (simp split: prod.splits option.splits)
next
  case (PtrT el)
  then show ?case by simp
next
  case (BasicT k nm)
  show ?case by simp
qed

lemma field_node_Inr:
  "field_node um f = Inr s' \<longleftrightarrow>
     (\<exists>s. GenerateSchema um (Typ f) = (Some s, None) \<and> field_tags um (Tag f) s = Inr s')"
  by (auto simp: field_node_def split: prod.splits option.splits)

lemma struct_fields_required:
  "struct_fields um fs ps rs = Inr (ps', rs') \<Longrightarrow>
     rs' = rs @ map field_name (filter (\<lambda>f. \<not> field_optional f) fs)"
proof (induction fs arbitrary: ps rs)
  case Nil
  then show ?case by simp
next
  case (Cons f fs)
  from Cons.prems obtain s' where
    r: "struct_fields um fs (AList.update (field_name f) s' ps)
          (if \<not> field_optional f then rs @ [field_name f] else rs) = Inr (ps', rs')"
    by (auto simp: struct_fields_Cons simp del: struct_fields.simps split: sum.splits)
  from Cons.IH [OF r] show ?case
    by simp
qed

lemma struct_fields_keys:
  "struct_fields um fs ps rs = Inr (ps', rs') \<Longrightarrow>
     fst ` set ps' = fst ` set ps \<union> field_name ` set fs"
proof (induction fs arbitrary: ps rs)
  case Nil
  then show ?case by simp
next
  case (Cons f fs)
  from Cons.prems obtain s' where
    n: "field_node um f = Inr s'" and
    r: "struct_fields um fs (AList.update (field_name f) s' ps)
          (if \<not> field_optional f then rs @ [field_name f] else rs) = Inr (ps', rs')"
    by (auto simp: struct_fields_Cons simp del: struct_fields.simps split: sum.splits)
  from Cons.IH [OF r] show ?case
    by (simp add: AList.dom_update)
qed

lemma struct_fields_distinct:
  "struct_fields um fs ps rs = Inr (ps', rs') \<Longrightarrow> distinct (map fst ps) \<Longrightarrow>
     distinct (map fst ps')"
proof (induction fs arbitrary: ps rs)
  case Nil
  then show ?case by simp
next
  case (Cons f fs)
  from Cons.prems obtain s' where
    r: "struct_fields um fs (AList.update (field_name f) s' ps)
          (if \<not> field_optional f then rs @ [field_name f] else rs) = Inr (ps', rs')"
    by (auto simp: struct_fields_Cons simp del: struct_fields.simps split: sum.splits)
  from Cons.IH [OF r] Cons.prems(2) show ?case
    by (simp add: distinct_update)
qed

lemma first_append: "first (xs @ ys) = (case first xs of None \<Rightarrow> first ys | Some x \<Rightarrow> Some x)"
  by (cases xs) simp_all

lemma first_None [simp]: "first xs = None \<longleftrightarrow> xs = []"
  by (cases xs) simp_all

lemma first_None2 [simp]: "None = first xs \<longleftrightarrow> xs = []"
  by (cases xs) simp_all

lemma errors_fields_Cons:
  "errors_fields um (f # fs) = field_errors um f @ errors_fields um fs"
  by (cases f) (simp add: field_errors_def)

lemma errors_fields_concat: "errors_fields um fs = concat (map (field_errors um) fs)"
  by (induction fs) (simp_all add: errors_fields_Cons del: errors_fields.simps(2))

lemma GenerateSchema_Type:
  "GenerateSchema um t = (Some s, None) \<Longrightarrow> Type s = node_Type t"
proof (induction t arbitrary: s rule: rtype_induct)
  case (StructT fs)
  then show ?case by (auto split: sum.splits prod.splits)
next
  case (MapT k v)
  then show ?case by (auto simp: Schema0_def)
next
  case (SliceT el)
  then show ?case by (auto split: prod.splits option.splits)
next
  case (ArrayT n el)
  then show ?case by (auto split: prod.splits option.splits)
next
  case (PtrT el)
  then show ?case by simp
next
  case (BasicT k nm)
  then show ?case by (auto split: if_splits)
qed

lemma tag_minimum_cases:
  "tag_minimum tag s = (case first (atoi_errors tag ''minimum'') of
       Some e \<Rightarrow> Inl e
     | None \<Rightarrow> Inr (case Lookup tag ''minimum'' of None \<Rightarrow> s
                    | Some d \<Rightarrow> set_Minimum (Some (projr (Atoi d))) s))"
  by (simp add: tag_minimum_def atoi_errors_def split: option.splits sum.splits)

lemma tag_maximum_cases:
  "tag_maximum tag s = (case first (atoi_errors tag ''maximum'') of
       Some e \<Rightarrow> Inl e
     | None \<Rightarrow> Inr (case Lookup tag ''maximum'' of None \<Rightarrow> s
                    | Some d \<Rightarrow> set_Maximum (Some (projr (Atoi d))) s))"
  by (simp add: tag_maximum_def atoi_errors_def split: option.splits sum.splits)

lemma tag_example_cases:
  "tag_example um tag s = (case first (example_errors um tag (Type s)) of
       Some e \<Rightarrow> Inl e
     | None \<Rightarrow> Inr (case Lookup tag ''example'' of None \<Rightarrow> s
                    | Some e \<Rightarrow> set_Example (if Type s = ''string'' then IString e
                                              else projr (um e)) s))"
  by (simp add: tag_example_def example_errors_def split: option.splits sum.splits)

lemma Type_tag_description [simp]: "Type (tag_description tag s) = Type s"
  by (simp add: tag_description_def split: option.splits)

lemma Type_tag_enum [simp]: "Type (tag_enum tag s) = Type s"
  by (simp add: tag_enum_def split: option.splits)

lemma field_tags_Inl:
  "field_tags um tag s = Inl e \<longleftrightarrow> first (tag_errors um tag (Type s)) = Some e"
  by (auto simp: field_tags_def tag_errors_def tag_minimum_cases tag_maximum_cases
        tag_example_cases first_append split: option.splits sum.splits)

lemma field_tags_Inr:
  "(\<exists>s'. field_tags um tag s = Inr s') \<longleftrightarrow> tag_errors um tag (Type s) = []"
proof (cases "field_tags um tag s")
  case (Inl e)
  then have "first (tag_errors um tag (Type s)) = Some e"
    by (simp only: field_tags_Inl)
  then have "tag_errors um tag (Type s) \<noteq> []"
    by (cases "tag_errors um tag (Type s)") simp_all
  with Inl show ?thesis by simp
next
  case (Inr s')
  have "tag_errors um tag (Type s) = []"
  proof (cases "tag_errors um tag (Type s)")
    case Nil
    then show ?thesis .
  next
    case (Cons e es)
    then have "first (tag_errors um tag (Type s)) = Some e" by simp
    then have "field_tags um tag s = Inl e" by (simp only: field_tags_Inl)
    with Inr show ?thesis by simp
  qed
  with Inr show ?thesis by simp
qed

lemma err_of_field_tags: "err_of (field_tags um tag s) = first (tag_errors um tag (Type s))"
proof (cases "field_tags um tag s")
  case (Inl e)
  then have "first (tag_errors um tag (Type s)) = Some e"
    by (simp only: field_tags_Inl)
  with Inl show ?thesis by simp
next
  case (Inr s')
  then have "tag_errors um tag (Type s) = []"
    using field_tags_Inr [of um tag s] by simp
  with Inr show ?thesis by simp
qed

lemma err_of_field_node:
  assumes "snd (GenerateSchema um (Typ f)) = first (errors um (Typ f))"
  shows "err_of (field_node um f) = first (field_errors um f)"
proof -
  consider s where "GenerateSchema um (Typ f) = (Some s, None)"
    | e where "GenerateSchema um (Typ f) = (None, Some e)"
    using GenerateSchema_shape [of um "Typ f"] by blast
  then show ?thesis
  proof cases
    case 1
    with assms have "errors um (Typ f) = []" by simp
    moreover from 1 have "Type s = node_Type (Typ f)" by (rule GenerateSchema_Type)
    moreover from 1 have "field_node um f = field_tags um (Tag f) s"
      by (simp add: field_node_def)
    ultimately show ?thesis by (simp add: err_of_field_tags field_errors_def)
  next
    case 2
    with assms have "first (errors um (Typ f)) = Some e" by simp
    moreover from 2 have "field_node um f = Inl e" by (simp add: field_node_def)
    ultimately show ?thesis by (simp add: first_append field_errors_def)
  qed
qed

lemma err_of_struct_fields:
  assumes "\<And>f. f \<in> set fs \<Longrightarrow> snd (GenerateSchema um (Typ f)) = first (errors um (Typ f))"
  shows "err_of (struct_fields um fs ps rs) = first (errors_fields um fs)"
  using assms
proof (induction fs arbitrary: ps rs)
  case Nil
  show ?case by simp
next
  case (Cons f fs)
  have n: "err_of (field_node um f) = first (field_errors um f)"
    by (rule err_of_field_node) (simp add: Cons.prems)
  have r: "err_of (struct_fields um fs ps' rs') = first (errors_fields um fs)" for ps' rs'
    by (rule Cons.IH) (simp add: Cons.prems)
  show ?case
  proof (cases "field_node um f")
    case (Inl e)
    with n have "first (field_errors um f) = Some e" by simp
    with Inl show ?thesis
      by (simp add: struct_fields_Cons errors_fields_Cons first_append
            del: struct_fields.simps)
  next
    case (Inr s')
    with n have "field_errors um f = []" by simp
    with Inr r show ?thesis
      by (simp add: struct_fields_Cons errors_fields_Cons del: struct_fields.simps)
  qed
qed

lemma GenerateSchema_first_error: "snd (GenerateSchema um t) = first (errors um t)"
proof (induction t rule: rtype_induct)
  case (StructT fs)
  then have "err_of (struct_fields um fs [] []) = first (errors_fields um fs)"
    by (rule err_of_struct_fields)
  then show ?case by (cases "struct_fields um fs [] []") (auto split: prod.splits)
next
  case (MapT k v)
  show ?case by simp
next
  case (SliceT el)
  then show ?case
    by (cases "GenerateSchema um el"; cases "snd (GenerateSchema um el)") auto
next
  case (ArrayT n el)
  then show ?case
    by (cases "GenerateSchema um el"; cases "snd (GenerateSchema um el)") auto
next
  case (PtrT el)
  then show ?case by simp
next
  case (BasicT k nm)
  show ?case by (cases k) (simp_all add: unsupported_def)
qed

lemma struct_fields_append:
  "struct_fields um (pre @ post) ps rs =
     (case struct_fields um pre ps rs of
        Inl err \<Rightarrow> Inl err
      | Inr (ps1, rs1) \<Rightarrow> struct_fields um post ps1 rs1)"
proof (induction pre arbitrary: ps rs)
  case Nil
  show ?case by simp
next
  case (Cons f pre)
  show ?case
    by (simp add: struct_fields_Cons Cons.IH del: struct_fields.simps split: sum.splits)
qed

lemma struct_fields_untouched:
  "struct_fields um fs ps rs = Inr (ps', rs') \<Longrightarrow> n \<notin> field_name ` set fs \<Longrightarrow>
     map_of ps' n = map_of ps n"
proof (induction fs arbitrary: ps rs)
  case Nil
  then show ?case by simp
next
  case (Cons f fs)
  from Cons.prems(1) obtain s' where
    r: "struct_fields um fs (AList.update (field_name f) s' ps)
          (if \<not> field_optional f then rs @ [field_name f] else rs) = Inr (ps', rs')"
    by (auto simp: struct_fields_Cons simp del: struct_fields.simps split: sum.splits)
  from Cons.prems(2) have "n \<notin> field_name ` set fs" and "n \<noteq> field_name f" by auto
  with Cons.IH [OF r] show ?case by (simp add: update_conv')
qed

lemma struct_fields_last:
  assumes "struct_fields um (pre @ f # post) ps rs = Inr (ps', rs')"
    and "field_name f \<notin> field_name ` set post"
  shows "\<exists>s. field_node um f = Inr s \<and> map_of ps' (field_name f) = Some s"
proof -
  from assms(1) obtain ps1 rs1 where
    "struct_fields um (f # post) ps1 rs1 = Inr (ps', rs')"
    by (auto simp: struct_fields_append simp del: struct_fields.simps split: sum.splits)
  then obtain s where n: "field_node um f = Inr s" and
    r: "struct_fields um post (AList.update (field_name f) s ps1)
          (if \<not> field_optional f then rs1 @ [field_name f] else rs1) = Inr (ps', rs')"
    by (auto simp: struct_fields_Cons simp del: struct_fields.simps split: sum.splits)
  from struct_fields_untouched [OF r assms(2)]
  have "map_of ps' (field_name f) = Some s" by (simp add: update_conv')
  with n show ?thesis by blast
qed

lemma struct_fields_source:
  "struct_fields um fs ps rs = Inr (ps', rs') \<Longrightarrow> map_of ps' n = Some s \<Longrightarrow>
     map_of ps n = Some s \<or> (\<exists>f \<in> set fs. field_name f = n \<and> field_node um f = Inr s)"
proof (induction fs arbitrary: ps rs)
  case Nil
  then show ?case by simp
next
  case (Cons f fs)
  from Cons.prems(1) obtain s' where n: "field_node um f = Inr s'" and
    r: "struct_fields um fs (AList.update (field_name f) s' ps)
          (if \<not> field_optional f then rs @ [field_name f] else rs) = Inr (ps', rs')"
    by (auto simp: struct_fields_Cons simp del: struct_fields.simps split: sum.splits)
  from Cons.IH [OF r Cons.prems(2)] n show ?case
    by (auto simp: update_conv' split: if_splits)
qed

lemma GenerateSchema_StructT_Some:
  "GenerateSchema um (StructT fs) = (Some sch, None) \<longleftrightarrow>
     (\<exists>ps rs. struct_fields um fs [] [] = Inr (ps, rs) \<and>
        sch = Schema ''object'' [] None (if ps = [] then None else Some ps)
                (if rs = [] then None else Some rs) [] None INil INil None None)"
  by (auto simp: Schema0_def split: sum.splits)

lemma GenerateSchema_StructT_props:
  assumes "GenerateSchema um (StructT fs) = (Some sch, None)"
  obtains ps rs where "struct_fields um fs [] [] = Inr (ps, rs)"
    and "Properties sch = (if ps = [] then None else Some ps)"
    and "Required sch = (if rs = [] then None else Some rs)"
    and "Type sch = ''object''"
  using assms unfolding GenerateSchema_StructT_Some by auto

lemma field_node_uint:
  assumes "k \<in> {UintK, Uint8K, Uint16K, Uint32K, Uint64K}" and "Typ f = BasicT k nm"
  shows "field_node um f =
           field_tags um (Tag f) (Schema ''integer'' [] None None None [] None INil INil (Some 0) None)"
  using assms by (auto simp: field_node_def Schema0_def)

lemma field_tags_bounds:
  assumes "field_tags um tag s0 = Inr s"
  shows "Type s = Type s0"
    and "Minimum s = (case Lookup tag ''minimum'' of None \<Rightarrow> Minimum s0
                      | Some d \<Rightarrow> Some (projr (Atoi d)))"
    and "Maximum s = (case Lookup tag ''maximum'' of None \<Rightarrow> Maximum s0
                      | Some d \<Rightarrow> Some (projr (Atoi d)))"
    and "\<And>d. Lookup tag ''minimum'' = Some d \<Longrightarrow> \<exists>n. Atoi d = Inr n"
    and "\<And>d. Lookup tag ''maximum'' = Some d \<Longrightarrow> \<exists>n. Atoi d = Inr n"
  using assms
  by (auto simp: field_tags_def tag_minimum_def tag_maximum_def tag_example_def
        tag_enum_def tag_description_def split: option.splits sum.splits if_splits)

lemma Get_Some: "Lookup tag key = Some v \<Longrightarrow> Get tag key = v"
  by (simp add: Get_def)

lemma field_name_declared:
  "declares_name f \<Longrightarrow> field_name f = resolved_name f"
  by (auto simp: field_name_hd resolved_name_def declares_name_def Get_def
        split: option.splits)

lemma list_all2_map_same:
  "list_all2 P xs (map g xs) \<longleftrightarrow> (\<forall>x\<in>set xs. P x (g x))"
  by (induction xs) simp_all

lemma field_optional_omittable: "field_optional f = omittable f"
  by (auto simp: field_optional_iff omittable_def Get_def split: option.splits)

lemma GenerateSchema_StructT_required:
  assumes "GenerateSchema um (StructT fs) = (Some sch, None)"
  shows "Required sch =
           (if \<forall>f\<in>set fs. field_optional f then None
            else Some (map field_name (filter (\<lambda>f. \<not> field_optional f) fs)))"
proof -
  from assms obtain ps rs where
    sf: "struct_fields um fs [] [] = Inr (ps, rs)" and
    rq: "Required sch = (if rs = [] then None else Some rs)"
    by (rule GenerateSchema_StructT_props)
  from struct_fields_required [OF sf]
  have "rs = map field_name (filter (\<lambda>f. \<not> field_optional f) fs)" by simp
  with rq show ?thesis by (auto simp: filter_empty_conv)
qed

lemma GenerateSchema_StructT_keys:
  assumes "GenerateSchema um (StructT fs) = (Some sch, None)"
  shows "Properties sch = None \<longleftrightarrow> fs = []"
    and "Properties sch = Some ps \<Longrightarrow>
           fst ` set ps = field_name ` set fs \<and> distinct (map fst ps)"
proof -
  from assms obtain ps' rs where
    sf: "struct_fields um fs [] [] = Inr (ps', rs)" and
    pr: "Properties sch = (if ps' = [] then None else Some ps')"
    by (rule GenerateSchema_StructT_props)
  from struct_fields_keys [OF sf] have k: "fst ` set ps' = field_name ` set fs" by simp
  from struct_fields_distinct [OF sf] have d: "distinct (map fst ps')" by simp
  from k have e: "ps' = [] \<longleftrightarrow> fs = []" by (cases ps'; cases fs) auto
  show "Properties sch = None \<longleftrightarrow> fs = []" using pr e by simp
  show "fst ` set ps = field_name ` set fs \<and> distinct (map fst ps)"
    if "Properties sch = Some ps"
    using that pr k d by (auto split: if_splits)
qed

lemma wrap_ptr_same:
  "field_name (wrap_ptr f) = field_name f"
  "field_optional (wrap_ptr f) = field_optional f"
  "field_node um (wrap_ptr f) = field_node um f"
proof -
  show "field_name (wrap_ptr f) = field_name f"
    by (simp add: wrap_ptr_def field_name_hd)
  show "field_optional (wrap_ptr f) = field_optional f"
    by (simp add: wrap_ptr_def field_optional_iff)
  have "GenerateSchema um (Typ (wrap_ptr f)) = GenerateSchema um (Typ f)"
    and "Tag (wrap_ptr f) = Tag f"
    by (simp_all add: wrap_ptr_def)
  then show "field_node um (wrap_ptr f) = field_node um f"
    by (simp only: field_node_def)
qed

lemma struct_fields_wrap_ptr:
  "struct_fields um (map (\<lambda>f. if P f then wrap_ptr f else f) fs) ps rs
     = struct_fields um fs ps rs"
proof (induction fs arbitrary: ps rs)
  case Nil
  show ?case by simp
next
  case (Cons f fs)
  show ?case
    by (cases "P f")
      (simp_all add: struct_fields_Cons wrap_ptr_same Cons.IH del: struct_fields.simps
         split: sum.splits)
qed

lemma walked_fields_concat: "walked_fields fs = concat (map (\<lambda>f. walked (Typ f)) fs)"
proof (induction fs)
  case Nil
  show ?case by simp
next
  case (Cons f fs)
  then show ?case by (cases f) simp
qed

lemma errors_field_subset:
  "f \<in> set fs \<Longrightarrow> set (field_errors um f) \<subseteq> set (errors_fields um fs)"
  by (auto simp: errors_fields_concat)

lemma errors_walked:
  "u \<in> set (walked t) \<Longrightarrow> set (errors um u) \<subseteq> set (errors um t)"
proof (induction t rule: rtype_induct)
  case (StructT fs)
  from StructT.prems consider "u = StructT fs"
    | f where "f \<in> set fs" "u \<in> set (walked (Typ f))"
    by (auto simp: walked_fields_concat)
  then show ?case
  proof cases
    case 1
    then show ?thesis by simp
  next
    case 2
    then have "set (errors um u) \<subseteq> set (errors um (Typ f))" by (rule StructT.IH)
    also have "\<dots> \<subseteq> set (field_errors um f)" by (simp add: field_errors_def)
    also have "\<dots> \<subseteq> set (errors_fields um fs)" using 2(1) by (rule errors_field_subset)
    finally show ?thesis by simp
  qed
next
  case (MapT k v)
  then show ?case by simp
next
  case (SliceT el)
  then show ?case by auto
next
  case (ArrayT n el)
  then show ?case by auto
next
  case (PtrT el)
  then show ?case by auto
next
  case (BasicT k nm)
  then show ?case by simp
qed

lemma GenerateSchema_fails:
  assumes "e \<in> set (errors um t)"
  shows "\<exists>e'. GenerateSchema um t = (None, Some e') \<and> first (errors um t) = Some e'"
proof -
  from assms obtain e' es where es: "errors um t = e' # es" by (cases "errors um t") auto
  then have "snd (GenerateSchema um t) = Some e'"
    by (simp add: GenerateSchema_first_error)
  with GenerateSchema_shape [of um t] es show ?thesis by auto
qed

lemma GenerateSchema_succeeds:
  assumes "errors um t = []"
  shows "\<exists>s. GenerateSchema um t = (Some s, None)"
proof -
  from assms have "snd (GenerateSchema um t) = None"
    by (simp add: GenerateSchema_first_error)
  with GenerateSchema_shape [of um t] show ?thesis by auto
qed

lemma Atoi_error_shape: "Atoi d = Inl e \<Longrightarrow> \<exists>cause. e = NumError ''Atoi'' d cause"
  by (auto simp: Atoi_def Let_def split: if_splits sum.splits)

lemma GenerateSchema_error_iff:
  "GenerateSchema um t = (None, Some e) \<longleftrightarrow> first (errors um t) = Some e"
proof
  assume "GenerateSchema um t = (None, Some e)"
  then have "snd (GenerateSchema um t) = Some e" by simp
  then show "first (errors um t) = Some e" by (simp add: GenerateSchema_first_error)
next
  assume a: "first (errors um t) = Some e"
  then have "e \<in> set (errors um t)" by (cases "errors um t") auto
  from GenerateSchema_fails [OF this] a show "GenerateSchema um t = (None, Some e)" by auto
qed

lemma errors_fields_append:
  "errors_fields um (pre @ post) = errors_fields um pre @ errors_fields um post"
  by (simp add: errors_fields_concat)

lemma first_field_error:
  assumes "errors_fields um pre = []" and "first (field_errors um f) = Some e"
  shows "GenerateSchema um (StructT (pre @ f # post)) = (None, Some e)"
proof -
  have "first (errors um (StructT (pre @ f # post))) = Some e"
    using assms
    by (simp add: errors_fields_append errors_fields_Cons first_append
          del: errors_fields.simps)
  then show ?thesis by (simp only: GenerateSchema_error_iff)
qed

lemma tag_error_in_walk:
  assumes "StructT fs \<in> set (walked t)" and "f \<in> set fs"
    and "e \<in> set (tag_errors um (Tag f) (node_Type (Typ f)))"
  shows "e \<in> set (errors um t)"
proof -
  from assms(3) have "e \<in> set (field_errors um f)" by (simp add: field_errors_def)
  with errors_field_subset [OF assms(2)] have "e \<in> set (errors um (StructT fs))" by auto
  with errors_walked [OF assms(1)] show ?thesis by blast
qed

lemma field_tags_example:
  assumes "field_tags um tag s0 = Inr s" and "Lookup tag ''example'' = Some x"
  shows "Type s = ''string'' \<Longrightarrow> Example s = IString x"
    and "Type s \<noteq> ''string'' \<Longrightarrow> um x = Inr (Example s)"
  using assms
  by (auto simp: field_tags_def tag_minimum_def tag_maximum_def tag_example_def
        tag_enum_def tag_description_def split: option.splits sum.splits if_splits)

lemma field_node_Type:
  assumes "field_node um f = Inr s"
  shows "Type s = node_Type (Typ f)"
proof -
  from assms obtain s0 where g: "GenerateSchema um (Typ f) = (Some s0, None)"
    and t: "field_tags um (Tag f) s0 = Inr s"
    by (auto simp: field_node_Inr)
  from field_tags_bounds(1) [OF t] GenerateSchema_Type [OF g] show ?thesis by simp
qed

subsection \<open>The store-based builder refines the builder on values\<close>

lemma agree_from_refl [simp]: "agree_from a h h"
  by (simp add: agree_from_def)

lemma agree_from_trans:
  "agree_from a h h' \<Longrightarrow> agree_from a h' h'' \<Longrightarrow> agree_from a h h''"
  by (auto simp: agree_from_def)

lemma agree_from_mono: "agree_from a h h' \<Longrightarrow> a \<le> b \<Longrightarrow> agree_from b h h'"
  by (auto simp: agree_from_def)

lemma agree_from_append [simp]: "agree_from a h (h @ xs)"
  by (simp add: agree_from_def nth_append)

lemma agree_from_store: "b < a \<Longrightarrow> agree_from a h (store b upd h)"
  by (simp add: agree_from_def store_def)

lemma agree_from_store_new: "length h \<le> b \<Longrightarrow> agree_from a h h' \<Longrightarrow> agree_from a h (store b upd h')"
  by (auto simp: agree_from_def store_def)

lemma agree_from_0_take: "agree_from 0 h h' \<longleftrightarrow> take (length h) h' = h"
proof
  assume "agree_from 0 h h'"
  then show "take (length h) h' = h"
    by (intro nth_equalityI) (auto simp: agree_from_def)
next
  assume t: "take (length h) h' = h"
  then have "length (take (length h) h') = length h" by simp
  then have l: "length h \<le> length h'" by (simp add: min_def split: if_splits)
  have "h' ! i = h ! i" if "i < length h" for i
    using that t by (metis nth_take)
  with l show "agree_from 0 h h'" by (simp add: agree_from_def)
qed

lemma agree_from_length: "agree_from a h h' \<Longrightarrow> length h \<le> length h'"
  by (simp add: agree_from_def)

lemma agree_from_nth: "agree_from a h h' \<Longrightarrow> a \<le> i \<Longrightarrow> i < length h \<Longrightarrow> h' ! i = h ! i"
  by (simp add: agree_from_def)

lemma repr_agree:
  "repr h a s \<Longrightarrow> agree_from a h h' \<Longrightarrow> repr h' a s"
  "repr_props h a cps ps \<Longrightarrow> agree_from (Suc a) h h' \<Longrightarrow> repr_props h' a cps ps"
proof (induction h a s and h a cps ps rule: repr_repr_props.induct)
  case (1 h a t d i p r f e df ex mn mx)
  from "1.prems" have l: "a < length h'" and c: "h' ! a = h ! a"
    by (auto simp: agree_from_def)
  have it: "case i of
           None \<Rightarrow> cItems (h' ! a) = None
         | Some s \<Rightarrow> (case cItems (h' ! a) of None \<Rightarrow> False | Some c \<Rightarrow> a < c \<and> repr h' c s)"
  proof (cases i)
    case None
    with "1.prems" c show ?thesis by simp
  next
    case (Some s)
    with "1.prems"(1) obtain c' where c': "cItems (h ! a) = Some c'" "a < c'" "repr h c' s"
      by (auto split: option.splits)
    from "1.prems"(2) c'(2) have "agree_from c' h h'" by (auto intro: agree_from_mono)
    with "1.IH"(1) [OF Some c'(1) c'(3)] c' c Some show ?thesis by simp
  qed
  have pr: "case p of
           None \<Rightarrow> cProperties (h' ! a) = None
         | Some ps \<Rightarrow> (case cProperties (h' ! a) of
                         None \<Rightarrow> False
                       | Some cps \<Rightarrow> repr_props h' a cps ps)"
  proof (cases p)
    case None
    with "1.prems" c show ?thesis by simp
  next
    case (Some ps)
    with "1.prems"(1) obtain cps where cps: "cProperties (h ! a) = Some cps" "repr_props h a cps ps"
      by (auto split: option.splits)
    from "1.prems"(2) have "agree_from (Suc a) h h'" by (auto intro: agree_from_mono)
    with "1.IH"(2) [OF Some cps(1) cps(2)] cps c Some show ?thesis by simp
  qed
  from "1.prems"(1) l c it pr show ?case by simp
next
  case (2 h a cps)
  then show ?case by simp
next
  case (3 h a cps k s ps)
  from "3.prems"(1) obtain c cps' where cps: "cps = (k, c) # cps'" "a < c" "repr h c s"
    "repr_props h a cps' ps"
    by (auto split: list.splits)
  from "3.prems"(2) cps(2) have "agree_from c h h'" by (auto intro: agree_from_mono)
  with "3.IH"(1) cps have "repr h' c s" by simp
  moreover from "3.IH"(2) cps "3.prems"(2) have "repr_props h' a cps' ps" by simp
  ultimately show ?case using cps by simp
qed

lemma frame_refl [simp]: "frame a h h"
  by (simp add: frame_def)

lemma frame_trans: "frame a h h' \<Longrightarrow> frame a h' h'' \<Longrightarrow> frame a h h''"
  by (simp add: frame_def)

lemma frame_store [simp]: "frame a h (store a upd h)"
  by (simp add: frame_def store_def)

lemma frame_agree_new: "frame a h' h'' \<Longrightarrow> agree_from 0 h h' \<Longrightarrow> length h \<le> a \<Longrightarrow> agree_from 0 h h''"
  by (auto simp: frame_def agree_from_def)

lemma repr_cell:
  assumes "repr h a sch"
  shows "a < length h" and "cType (h ! a) = Type sch" and "cDescription (h ! a) = Description sch"
    and "cRequired (h ! a) = Required sch" and "cFormat (h ! a) = Format sch"
    and "cEnum (h ! a) = Enum sch" and "cDefault (h ! a) = Default sch"
    and "cExample (h ! a) = Example sch" and "cMinimum (h ! a) = Minimum sch"
    and "cMaximum (h ! a) = Maximum sch"
  using assms by (cases sch; simp)+

lemma repr_store_scalar:
  assumes "repr h a sch"
    and "cItems (upd (h ! a)) = cItems (h ! a)"
    and "cProperties (upd (h ! a)) = cProperties (h ! a)"
  shows "repr (store a upd h) a
           (Schema (cType (upd (h ! a))) (cDescription (upd (h ! a))) (Items sch)
              (Properties sch) (cRequired (upd (h ! a))) (cFormat (upd (h ! a)))
              (cEnum (upd (h ! a))) (cDefault (upd (h ! a))) (cExample (upd (h ! a)))
              (cMinimum (upd (h ! a))) (cMaximum (upd (h ! a))))"
proof -
  let ?h = "store a upd h"
  from assms(1) have l: "a < length h" by (rule repr_cell)
  then have n: "?h ! a = upd (h ! a)" and l': "a < length ?h" by (simp_all add: store_def)
  have it: "case Items sch of
           None \<Rightarrow> cItems (?h ! a) = None
         | Some s \<Rightarrow> (case cItems (?h ! a) of None \<Rightarrow> False | Some c \<Rightarrow> a < c \<and> repr ?h c s)"
  proof (cases "Items sch")
    case None
    with assms(1,2) n show ?thesis by (cases sch) simp
  next
    case (Some s)
    with assms(1) obtain c where c: "cItems (h ! a) = Some c" "a < c" "repr h c s"
      by (cases sch) (auto split: option.splits)
    from c(2) have "agree_from c h ?h" by (rule agree_from_store)
    with c(3) have "repr ?h c s" by (rule repr_agree(1))
    with c assms(2) n Some show ?thesis by simp
  qed
  have pr: "case Properties sch of
           None \<Rightarrow> cProperties (?h ! a) = None
         | Some ps \<Rightarrow> (case cProperties (?h ! a) of
                         None \<Rightarrow> False
                       | Some cps \<Rightarrow> repr_props ?h a cps ps)"
  proof (cases "Properties sch")
    case None
    with assms(1,3) n show ?thesis by (cases sch) simp
  next
    case (Some ps)
    with assms(1) obtain cps where c: "cProperties (h ! a) = Some cps" "repr_props h a cps ps"
      by (cases sch) (auto split: option.splits)
    have "agree_from (Suc a) h ?h" by (rule agree_from_store) simp
    with c(2) have "repr_props ?h a cps ps" by (rule repr_agree(2))
    with c assms(3) n Some show ?thesis by simp
  qed
  from l' n it pr show ?thesis by simp
qed

lemma repr_set_Description:
  assumes "repr h a sch"
  shows "repr (store a (\<lambda>c. c\<lparr>cDescription := v\<rparr>) h) a (set_Description v sch)"
  using repr_store_scalar [OF assms, of "\<lambda>c. c\<lparr>cDescription := v\<rparr>"] repr_cell [OF assms]
  by (cases sch) simp

lemma repr_set_Enum:
  assumes "repr h a sch"
  shows "repr (store a (\<lambda>c. c\<lparr>cEnum := v\<rparr>) h) a (set_Enum v sch)"
  using repr_store_scalar [OF assms, of "\<lambda>c. c\<lparr>cEnum := v\<rparr>"] repr_cell [OF assms]
  by (cases sch) simp

lemma repr_set_Minimum:
  assumes "repr h a sch"
  shows "repr (store a (\<lambda>c. c\<lparr>cMinimum := v\<rparr>) h) a (set_Minimum v sch)"
  using repr_store_scalar [OF assms, of "\<lambda>c. c\<lparr>cMinimum := v\<rparr>"] repr_cell [OF assms]
  by (cases sch) simp

lemma repr_set_Maximum:
  assumes "repr h a sch"
  shows "repr (store a (\<lambda>c. c\<lparr>cMaximum := v\<rparr>) h) a (set_Maximum v sch)"
  using repr_store_scalar [OF assms, of "\<lambda>c. c\<lparr>cMaximum := v\<rparr>"] repr_cell [OF assms]
  by (cases sch) simp

lemma repr_set_Example:
  assumes "repr h a sch"
  shows "repr (store a (\<lambda>c. c\<lparr>cExample := v\<rparr>) h) a (set_Example v sch)"
  using repr_store_scalar [OF assms, of "\<lambda>c. c\<lparr>cExample := v\<rparr>"] repr_cell [OF assms]
  by (cases sch) simp

lemma tag_description_st_repr:
  assumes "repr h a sch"
  shows "repr (tag_description_st tag a h) a (tag_description tag sch)"
    and "frame a h (tag_description_st tag a h)"
  using assms
  by (auto simp: tag_description_st_def tag_description_def repr_set_Description
        split: option.splits)

lemma tag_enum_st_repr:
  assumes "repr h a sch"
  shows "repr (tag_enum_st tag a h) a (tag_enum tag sch)"
    and "frame a h (tag_enum_st tag a h)"
  using assms
  by (auto simp: tag_enum_st_def tag_enum_def repr_set_Enum split: option.splits)

lemma tag_minimum_st_repr:
  assumes "repr h a sch"
  shows "frame a h (snd (tag_minimum_st tag a h))"
    and "case tag_minimum tag sch of
           Inl e \<Rightarrow> fst (tag_minimum_st tag a h) = Some e
         | Inr sch' \<Rightarrow> fst (tag_minimum_st tag a h) = None
                       \<and> repr (snd (tag_minimum_st tag a h)) a sch'"
  using assms
  by (auto simp: tag_minimum_st_def tag_minimum_def repr_set_Minimum
        split: option.splits sum.splits)

lemma tag_maximum_st_repr:
  assumes "repr h a sch"
  shows "frame a h (snd (tag_maximum_st tag a h))"
    and "case tag_maximum tag sch of
           Inl e \<Rightarrow> fst (tag_maximum_st tag a h) = Some e
         | Inr sch' \<Rightarrow> fst (tag_maximum_st tag a h) = None
                       \<and> repr (snd (tag_maximum_st tag a h)) a sch'"
  using assms
  by (auto simp: tag_maximum_st_def tag_maximum_def repr_set_Maximum
        split: option.splits sum.splits)

lemma tag_example_st_repr:
  assumes "repr h a sch"
  shows "frame a h (snd (tag_example_st um tag a h))"
    and "case tag_example um tag sch of
           Inl e \<Rightarrow> fst (tag_example_st um tag a h) = Some e
         | Inr sch' \<Rightarrow> fst (tag_example_st um tag a h) = None
                       \<and> repr (snd (tag_example_st um tag a h)) a sch'"
  using assms repr_cell(2) [OF assms]
  by (auto simp: tag_example_st_def tag_example_def repr_set_Example
        split: option.splits sum.splits)

lemma field_tags_st_repr:
  assumes "repr h a sch"
  shows "frame a h (snd (field_tags_st um tag a h))"
    and "case field_tags um tag sch of
           Inl e \<Rightarrow> fst (field_tags_st um tag a h) = Some e
         | Inr sch' \<Rightarrow> fst (field_tags_st um tag a h) = None
                       \<and> repr (snd (field_tags_st um tag a h)) a sch'"
proof -
  let ?h1 = "tag_enum_st tag a (tag_description_st tag a h)"
  let ?s1 = "tag_enum tag (tag_description tag sch)"
  have r1: "repr ?h1 a ?s1"
    by (intro tag_enum_st_repr(1) tag_description_st_repr(1) assms)
  have f1: "frame a h ?h1"
    by (rule frame_trans [OF tag_description_st_repr(2) [OF assms]
          tag_enum_st_repr(2) [OF tag_description_st_repr(1) [OF assms]]])
  note m = tag_minimum_st_repr [OF r1, of tag]
  obtain e2 h2 where t2: "tag_minimum_st tag a ?h1 = (e2, h2)" by (cases "tag_minimum_st tag a ?h1")
  from m(1) t2 f1 have f2: "frame a h h2" by (auto intro: frame_trans)
  show "frame a h (snd (field_tags_st um tag a h))"
    and "case field_tags um tag sch of
           Inl e \<Rightarrow> fst (field_tags_st um tag a h) = Some e
         | Inr sch' \<Rightarrow> fst (field_tags_st um tag a h) = None
                       \<and> repr (snd (field_tags_st um tag a h)) a sch'"
  proof (atomize (full), cases "tag_minimum tag ?s1")
    case (Inl e)
    with m(2) t2 f2 show "frame a h (snd (field_tags_st um tag a h)) \<and>
      (case field_tags um tag sch of
           Inl e \<Rightarrow> fst (field_tags_st um tag a h) = Some e
         | Inr sch' \<Rightarrow> fst (field_tags_st um tag a h) = None
                       \<and> repr (snd (field_tags_st um tag a h)) a sch')"
      by (simp add: field_tags_def field_tags_st_def)
  next
    case (Inr s2)
    with m(2) t2 have e2: "e2 = None" and r2: "repr h2 a s2" by simp_all
    note x = tag_maximum_st_repr [OF r2, of tag]
    obtain e3 h3 where t3: "tag_maximum_st tag a h2 = (e3, h3)" by (cases "tag_maximum_st tag a h2")
    from x(1) t3 f2 have f3: "frame a h h3" by (auto intro: frame_trans)
    show "frame a h (snd (field_tags_st um tag a h)) \<and>
      (case field_tags um tag sch of
           Inl e \<Rightarrow> fst (field_tags_st um tag a h) = Some e
         | Inr sch' \<Rightarrow> fst (field_tags_st um tag a h) = None
                       \<and> repr (snd (field_tags_st um tag a h)) a sch')"
    proof (cases "tag_maximum tag s2")
      case (Inl e)
      with x(2) t3 f3 Inr t2 e2 show ?thesis
        by (simp add: field_tags_def field_tags_st_def)
    next
      case (Inr s3)
      with x(2) t3 have e3: "e3 = None" and r3: "repr h3 a s3" by simp_all
      note y = tag_example_st_repr [OF r3, of um tag]
      from y(1) f3 have f4: "frame a h (snd (tag_example_st um tag a h3))"
        by (auto intro: frame_trans)
      have q1: "field_tags_st um tag a h = tag_example_st um tag a h3"
        using t2 t3 e2 e3 by (simp add: field_tags_st_def)
      have q2: "field_tags um tag sch = tag_example um tag s3"
        using Inr \<open>tag_minimum tag ?s1 = Inr s2\<close> by (simp add: field_tags_def)
      from y(2) f4 show ?thesis by (simp only: q1 q2)
    qed
  qed
qed

lemma repr_props_update:
  "repr_props h a0 cps ps \<Longrightarrow> a0 < c \<Longrightarrow> repr h c s \<Longrightarrow>
     repr_props h a0 (AList.update k c cps) (AList.update k s ps)"
proof (induction ps arbitrary: cps)
  case Nil
  then show ?case by simp
next
  case (Cons x ps)
  obtain k' s' where x: "x = (k', s')" by (cases x)
  from Cons.prems(1) x obtain c' cps' where cps: "cps = (k', c') # cps'" "a0 < c'"
    "repr h c' s'" "repr_props h a0 cps' ps"
    by (auto split: list.splits)
  show ?case
  proof (cases "k' = k")
    case True
    with x cps Cons.prems show ?thesis by simp
  next
    case False
    with x cps Cons.prems Cons.IH [OF cps(4)] show ?thesis by simp
  qed
qed

lemma struct_fields_st_refines:
  assumes "\<And>f h. f \<in> set fs \<Longrightarrow>
             refines h (GenerateSchema_st um (Typ f) h) (GenerateSchema um (Typ f))"
    and "repr_props h a0 cps ps" and "a0 < length h"
  shows "agree_from 0 h (snd (struct_fields_st um fs cps rs h))
       \<and> (case struct_fields um fs ps rs of
             Inl e \<Rightarrow> fst (struct_fields_st um fs cps rs h) = Inl e
           | Inr (ps', rs') \<Rightarrow>
               (\<exists>cps'. fst (struct_fields_st um fs cps rs h) = Inr (cps', rs')
                  \<and> repr_props (snd (struct_fields_st um fs cps rs h)) a0 cps' ps'))"
  using assms
proof (induction fs arbitrary: h cps ps rs)
  case Nil
  then show ?case by simp
next
  case (Cons f fs)
  obtain p e h1 where r: "GenerateSchema_st um (Typ f) h = ((p, e), h1)"
    by (cases "GenerateSchema_st um (Typ f) h") auto
  have rf: "refines h ((p, e), h1) (GenerateSchema um (Typ f))"
    using Cons.prems(1) [of f h] r by simp
  then have ag1: "agree_from 0 h h1" by (simp add: refines_def)
  consider s where "GenerateSchema um (Typ f) = (Some s, None)"
    | err where "GenerateSchema um (Typ f) = (None, Some err)"
    using GenerateSchema_shape [of um "Typ f"] by blast
  then show ?case
  proof cases
    case 2
    with rf have "e = Some err" and "p = None" by (simp_all add: refines_def)
    with r 2 ag1 show ?thesis by simp
  next
    case 1
    with rf obtain a where a: "p = Some a" "e = None" "length h \<le> a" "repr h1 a s"
      by (auto simp: refines_def)
    obtain eo h2 where t: "field_tags_st um (Tag f) a h1 = (eo, h2)"
      by (cases "field_tags_st um (Tag f) a h1")
    note ft = field_tags_st_repr [OF a(4), of um "Tag f"]
    from ft(1) t have fr: "frame a h1 h2" by simp
    from fr ag1 a(3) have ag2: "agree_from 0 h h2" by (rule frame_agree_new)
    show ?thesis
    proof (cases "field_tags um (Tag f) s")
      case (Inl e')
      with ft(2) t have "eo = Some e'" by simp
      with r a t 1 Inl ag2 show ?thesis by simp
    next
      case (Inr s')
      with ft(2) t have eo: "eo = None" and rs': "repr h2 a s'" by simp_all
      let ?cps = "AList.update (field_name f) a cps"
      let ?ps = "AList.update (field_name f) s' ps"
      let ?rs = "if \<not> field_optional f then rs @ [field_name f] else rs"
      from ag2 have "agree_from (Suc a0) h h2" by (rule agree_from_mono) simp
      with Cons.prems(2) have "repr_props h2 a0 cps ps" by (rule repr_agree(2))
      moreover from Cons.prems(3) a(3) have "a0 < a" by simp
      ultimately have rp: "repr_props h2 a0 ?cps ?ps" using rs' by (rule repr_props_update)
      from Cons.prems(3) ag2 have l2: "a0 < length h2" by (auto dest: agree_from_length)
      have ih: "agree_from 0 h2 (snd (struct_fields_st um fs ?cps ?rs h2))
          \<and> (case struct_fields um fs ?ps ?rs of
             Inl e \<Rightarrow> fst (struct_fields_st um fs ?cps ?rs h2) = Inl e
           | Inr (ps', rs') \<Rightarrow>
               (\<exists>cps'. fst (struct_fields_st um fs ?cps ?rs h2) = Inr (cps', rs')
                  \<and> repr_props (snd (struct_fields_st um fs ?cps ?rs h2)) a0 cps' ps'))"
        by (rule Cons.IH [OF _ rp l2]) (simp add: Cons.prems(1))
      have q1: "struct_fields_st um (f # fs) cps rs h = struct_fields_st um fs ?cps ?rs h2"
        using r a t eo by simp
      have q2: "struct_fields um (f # fs) ps rs = struct_fields um fs ?ps ?rs"
        using 1 Inr by simp
      from ih ag2 show ?thesis
        unfolding q1 q2 by (auto intro: agree_from_trans)
    qed
  qed
qed

lemma store_new [simp]: "store (length h) upd (h @ [c]) = h @ [upd c]"
  by (simp add: store_def)

lemma store_nth [simp]: "a < length h \<Longrightarrow> store a upd h ! a = upd (h ! a)"
  by (simp add: store_def)

lemma store_length [simp]: "length (store a upd h) = length h"
  by (simp add: store_def)

lemma refines_weaken:
  assumes "refines h1 r g" and "agree_from 0 h h1"
  shows "refines h r g"
proof -
  from assms(2) have "length h \<le> length h1" by (rule agree_from_length)
  with assms show ?thesis
    by (auto simp: refines_def intro: agree_from_trans split: option.splits)
qed

lemma nth_append_second [simp]: "(h @ [c0, c]) ! Suc (length h) = c"
  by (simp add: nth_append)

lemma refines_BasicT:
  "refines h (GenerateSchema_st um (BasicT k nm) h) (GenerateSchema um (BasicT k nm))"
proof -
  have int: "refines h ((Some (Suc (length h)), None), h @ [cell0, cell0\<lparr>cType := ''integer''\<rparr>])
               (Some (set_Type ''integer'' Schema0), None)"
    by (simp add: refines_def cell0_def Schema0_def)
  have uint: "refines h ((Some (Suc (length h)), None),
                 h @ [cell0, cell0\<lparr>cType := ''integer'', cMinimum := Some 0\<rparr>])
               (Some (set_Minimum (Some 0) (set_Type ''integer'' Schema0)), None)"
    by (simp add: refines_def cell0_def Schema0_def)
  have num: "refines h ((Some (Suc (length h)), None), h @ [cell0, cell0\<lparr>cType := ''number''\<rparr>])
               (Some (set_Type ''number'' Schema0), None)"
    by (simp add: refines_def cell0_def Schema0_def)
  have bool: "refines h ((Some (Suc (length h)), None), h @ [cell0, cell0\<lparr>cType := ''boolean''\<rparr>])
               (Some (set_Type ''boolean'' Schema0), None)"
    by (simp add: refines_def cell0_def Schema0_def)
  have str: "refines h ((Some (Suc (length h)), None), h @ [cell0, cell0\<lparr>cType := ''string''\<rparr>])
               (Some (set_Type ''string'' Schema0), None)"
    by (simp add: refines_def cell0_def Schema0_def)
  have err: "refines h ((None, Some e), h @ [cell0]) (None, Some e)" for e
    by (simp add: refines_def)
  from int uint num bool str err show ?thesis
    by (simp add: new_def)
qed

lemma refines_MapT: "refines h (GenerateSchema_st um (MapT k v) h) (GenerateSchema um (MapT k v))"
  by (simp add: new_def refines_def cell0_def Schema0_def nth_append)

lemma refines_PtrT:
  assumes "\<And>h. refines h (GenerateSchema_st um el h) (GenerateSchema um el)"
  shows "refines h (GenerateSchema_st um (PtrT el) h) (GenerateSchema um (PtrT el))"
proof -
  have "refines (h @ [cell0]) (GenerateSchema_st um el (h @ [cell0])) (GenerateSchema um el)"
    by (rule assms)
  then have "refines h (GenerateSchema_st um el (h @ [cell0])) (GenerateSchema um el)"
    by (rule refines_weaken) simp
  then show ?thesis by (simp add: new_def)
qed

lemma refines_items:
  assumes ih: "\<And>h. refines h (GenerateSchema_st um el h) (GenerateSchema um el)"
  shows "refines h
           (let (schema, h1) = new cell0 h;
                h2 = store schema (\<lambda>c. c\<lparr>cType := ''array''\<rparr>) h1
            in case GenerateSchema_st um el h2 of
                 ((s, Some err), h3) \<Rightarrow> ((None, Some err), h3)
               | ((s, None), h3) \<Rightarrow>
                   ((Some schema, None), store schema (\<lambda>c. c\<lparr>cItems := s\<rparr>) h3))
           (case GenerateSchema um el of
              (s, Some err) \<Rightarrow> (None, Some err)
            | (s, None) \<Rightarrow> (Some (set_Items s (set_Type ''array'' Schema0)), None))"
proof -
  let ?a = "length h"
  let ?c = "cell0\<lparr>cType := ''array''\<rparr>"
  let ?h2 = "h @ [?c]"
  obtain p e h3 where r: "GenerateSchema_st um el ?h2 = ((p, e), h3)"
    by (cases "GenerateSchema_st um el ?h2") auto
  have rf: "refines ?h2 ((p, e), h3) (GenerateSchema um el)"
    using ih [of ?h2] r by simp
  then have ag: "agree_from 0 ?h2 h3" by (simp add: refines_def)
  have ag0: "agree_from 0 h h3"
    by (rule agree_from_trans [OF _ ag]) simp
  from ag have l3: "?a < length h3" by (auto dest: agree_from_length)
  from ag have c3: "h3 ! ?a = ?c" by (auto dest: agree_from_nth [where i = ?a])
  consider s where "GenerateSchema um el = (Some s, None)"
    | err where "GenerateSchema um el = (None, Some err)"
    using GenerateSchema_shape [of um el] by blast
  then show ?thesis
  proof cases
    case 2
    with rf have "e = Some err" by (simp add: refines_def)
    with r 2 ag0 show ?thesis by (simp add: new_def refines_def)
  next
    case 1
    with rf obtain a where a: "p = Some a" "e = None" "length ?h2 \<le> a" "repr h3 a s"
      by (auto simp: refines_def)
    let ?h4 = "store ?a (\<lambda>c. c\<lparr>cItems := Some a\<rparr>) h3"
    from a(3) have lt: "?a < a" by simp
    then have "agree_from a h3 ?h4" by (rule agree_from_store)
    with a(4) have ch: "repr ?h4 a s" by (rule repr_agree(1))
    have n4: "?h4 ! ?a = ?c\<lparr>cItems := Some a\<rparr>" using l3 c3 by simp
    have "repr ?h4 ?a (set_Items (Some s) (set_Type ''array'' Schema0))"
      using l3 n4 ch lt by (simp add: Schema0_def cell0_def)
    moreover have "agree_from 0 h ?h4"
      using ag0 by (intro agree_from_store_new) simp_all
    ultimately show ?thesis
      using r a 1 by (simp add: new_def refines_def)
  qed
qed

lemma refines_StructT:
  assumes ih: "\<And>f h. f \<in> set fs \<Longrightarrow>
             refines h (GenerateSchema_st um (Typ f) h) (GenerateSchema um (Typ f))"
  shows "refines h (GenerateSchema_st um (StructT fs) h) (GenerateSchema um (StructT fs))"
proof -
  let ?a = "length h"
  let ?c = "cell0\<lparr>cType := ''object''\<rparr>"
  let ?h2 = "h @ [?c]"
  obtain res h3 where r: "struct_fields_st um fs [] [] ?h2 = (res, h3)"
    by (cases "struct_fields_st um fs [] [] ?h2")
  have "repr_props ?h2 ?a [] []" and "?a < length ?h2" by simp_all
  from struct_fields_st_refines [OF ih this, of fs "[]"]
  have ag: "agree_from 0 ?h2 h3"
    and sf: "case struct_fields um fs [] [] of
               Inl e \<Rightarrow> res = Inl e
             | Inr (ps', rs') \<Rightarrow> (\<exists>cps'. res = Inr (cps', rs') \<and> repr_props h3 ?a cps' ps')"
    unfolding r fst_conv snd_conv by simp_all
  have ag0: "agree_from 0 h h3"
    by (rule agree_from_trans [OF _ ag]) simp
  from ag have l3: "?a < length h3" by (auto dest: agree_from_length)
  from ag have c3: "h3 ! ?a = ?c" by (auto dest: agree_from_nth [where i = ?a])
  show ?thesis
  proof (cases "struct_fields um fs [] []")
    case (Inl e)
    with sf have "res = Inl e" by simp
    with r Inl ag0 show ?thesis by (simp add: new_def refines_def)
  next
    case (Inr pr)
    obtain ps rs where pr: "pr = (ps, rs)" by (cases pr)
    with sf Inr obtain cps where res: "res = Inr (cps, rs)" and rp: "repr_props h3 ?a cps ps"
      by auto
    let ?h4 = "if length cps > 0
               then store ?a (\<lambda>c. c\<lparr>cProperties := Some cps\<rparr>) h3 else h3"
    let ?h5 = "if length rs > 0
               then store ?a (\<lambda>c. c\<lparr>cRequired := Some rs\<rparr>) ?h4 else ?h4"
    from rp have e: "cps = [] \<longleftrightarrow> ps = []" by (cases ps; cases cps) auto
    have ag5: "agree_from (Suc ?a) h3 ?h5"
      by (auto simp: agree_from_def store_def)
    with rp have rp5: "repr_props ?h5 ?a cps ps" by (rule repr_agree(2))
    have l5: "?a < length ?h5" using l3 by simp
    have n5: "?h5 ! ?a = ?c\<lparr>cProperties := (if ps = [] then None else Some cps),
                           cRequired := (if rs = [] then None else Some rs)\<rparr>"
      using l3 c3 e by (simp add: cell0_def)
    have "repr ?h5 ?a
            (set_Required (if length rs > 0 then Some rs else None)
               (set_Properties (if length ps > 0 then Some ps else None)
                  (set_Type ''object'' Schema0)))"
      using l5 n5 rp5 by (simp add: Schema0_def cell0_def)
    moreover have "agree_from 0 h ?h5"
      using ag0 by (auto simp: agree_from_def store_def)
    moreover have "GenerateSchema_st um (StructT fs) h = ((Some ?a, None), ?h5)"
      using r res by (simp add: new_def Let_def)
    moreover have "GenerateSchema um (StructT fs) =
            (Some (set_Required (if length rs > 0 then Some rs else None)
               (set_Properties (if length ps > 0 then Some ps else None)
                  (set_Type ''object'' Schema0))), None)"
      using Inr pr by simp
    ultimately show ?thesis
      by (simp only: refines_def fst_conv snd_conv option.case) blast
  qed
qed

lemma GenerateSchema_st_refines:
  "refines h (GenerateSchema_st um t h) (GenerateSchema um t)"
proof (induction t arbitrary: h rule: rtype_induct)
  case (StructT fs)
  then show ?case by (rule refines_StructT)
next
  case (MapT k v)
  show ?case by (rule refines_MapT)
next
  case (SliceT el)
  from refines_items [OF SliceT.IH, of h] show ?case by simp
next
  case (ArrayT n el)
  from refines_items [OF ArrayT.IH, of h] show ?case by simp
next
  case (PtrT el)
  then show ?case by (rule refines_PtrT)
next
  case (BasicT k nm)
  show ?case by (rule refines_BasicT)
qed

lemma repr_unique:
  "repr h a s \<Longrightarrow> repr h a s' \<Longrightarrow> s = s'"
  "repr_props h a cps ps \<Longrightarrow> repr_props h a cps ps' \<Longrightarrow> ps = ps'"
proof (induction h a s and h a cps ps arbitrary: s' and ps' rule: repr_repr_props.induct)
  case (1 h a t d i p r f e df ex mn mx)
  obtain t' d' i' p' r' f' e' df' ex' mn' mx' where
    s': "s' = Schema t' d' i' p' r' f' e' df' ex' mn' mx'" by (cases s')
  have i: "i = i'"
  proof (cases i)
    case None
    with "1.prems" s' show ?thesis by (cases i') (auto split: option.splits)
  next
    case (Some x)
    with "1.prems"(1) obtain c where c: "cItems (h ! a) = Some c" "repr h c x"
      by (auto split: option.splits)
    with "1.prems"(2) s' obtain x' where x': "i' = Some x'" "repr h c x'"
      by (cases i') (auto split: option.splits)
    from "1.IH"(1) [OF Some c(1) c(2) x'(2)] Some x' show ?thesis by simp
  qed
  have p: "p = p'"
  proof (cases p)
    case None
    with "1.prems" s' show ?thesis by (cases p') (auto split: option.splits)
  next
    case (Some ps)
    with "1.prems"(1) obtain cps where c: "cProperties (h ! a) = Some cps" "repr_props h a cps ps"
      by (auto split: option.splits)
    with "1.prems"(2) s' obtain ps' where x': "p' = Some ps'" "repr_props h a cps ps'"
      by (cases p') (auto split: option.splits)
    from "1.IH"(2) [OF Some c(1) c(2) x'(2)] Some x' show ?thesis by simp
  qed
  from "1.prems" s' i p show ?case by simp
next
  case (2 h a cps)
  then show ?case by (cases ps') auto
next
  case (3 h a cps k s ps)
  from "3.prems"(1) obtain c cps' where cps: "cps = (k, c) # cps'" "repr h c s"
    "repr_props h a cps' ps"
    by (auto split: list.splits)
  with "3.prems"(2) obtain s2 ps2 where p': "ps' = (k, s2) # ps2" "repr h c s2"
    "repr_props h a cps' ps2"
    by (cases ps') (auto split: list.splits)
  from "3.IH"(1) [OF cps(1) _ cps(2) p'(2)] "3.IH"(2) [OF cps(1) _ cps(3) p'(3)] p'(1)
  show ?case by simp
qed

section \<open>Claims\<close>

text \<open>
  C8. For every map type, whatever its key and element types, the builder succeeds and
  returns the zero node: no kind, no other attribute set.
\<close>

theorem C8_map_is_empty_node:
  "GenerateSchema Unmarshal (MapT k v) =
     (Some (Schema [] [] None None None [] None INil INil None None), None)"
  by (simp add: Schema0_def)

text \<open>
  C1. The claim: a field with no \<^verbatim>\<open>json\<close> annotation is stored under its declared
  identifier. The source sets \<^verbatim>\<open>name := f.Name\<close> and replaces it by \<^verbatim>\<open>jsonTags[0]\<close> when
  \<^verbatim>\<open>len(jsonTags) > 0\<close>; \<^verbatim>\<open>strings.Split\<close> never returns an empty slice, so the
  identifier is always replaced. For the record of the specification's example scenario
  (a string field \<^verbatim>\<open>name\<close> without annotation, an integer field with
  \<^verbatim>\<open>json:"age,omitempty"\<close>) the builder stores the string node under the empty key and
  requires the empty name.
\<close>

theorem C1_unannotated_field_key:
  "GenerateSchema um
     (StructT [StructField ''name'' (BasicT StringK ''string'') [],
               StructField ''age'' (BasicT IntK ''int'') [(''json'', ''age,omitempty'')]]) =
   (Some (Schema ''object'' [] None
            (Some [([], Schema ''string'' [] None None None [] None INil INil None None),
                   (''age'', Schema ''integer'' [] None None None [] None INil INil None None)])
            (Some [[]]) [] None INil INil None None),
    None)"
  by (simp add: Schema0_def field_tags_def tag_minimum_def tag_maximum_def tag_example_def
        tag_enum_def tag_description_def Lookup_def Get_def field_name_def
        field_optional_def)

text \<open>
  C2. The claim: every field of an unsigned integer kind gets an integer leaf with
  minimum 0. The case list of the source names \<^verbatim>\<open>reflect.Uint\<close>, \<^verbatim>\<open>Uint8\<close>, \<^verbatim>\<open>Uint16\<close>,
  \<^verbatim>\<open>Uint32\<close> and \<^verbatim>\<open>Uint64\<close>; the unsigned integer kind \<^verbatim>\<open>reflect.Uintptr\<close> is in no case and
  reaches the default branch, so a \<^verbatim>\<open>uintptr\<close> type, and a record with a \<^verbatim>\<open>uintptr\<close> field,
  fail as an unsupported type.
\<close>

theorem C2_uintptr_counterexample:
  "GenerateSchema Unmarshal_sample (BasicT UintptrK ''uintptr'')
     = (None, Some (ErrorString ''unsupported type uintptr from uintptr''))
   \<and> GenerateSchema Unmarshal_sample
       (StructT [StructField ''Handle'' (BasicT UintptrK ''uintptr'') [(''json'', ''handle'')]])
     = (None, Some (ErrorString ''unsupported type uintptr from uintptr''))"
  by simp

text \<open>
  C2, amended. A field of kind \<^verbatim>\<open>uint\<close>, \<^verbatim>\<open>uint8\<close>, \<^verbatim>\<open>uint16\<close>, \<^verbatim>\<open>uint32\<close> or \<^verbatim>\<open>uint64\<close>: the node
  of its type is the integer leaf with minimum 0. Whenever the annotations of the field are
  accepted, the refined node is still an integer node; its minimum is 0 when there is no
  \<^verbatim>\<open>minimum\<close> annotation and the integer parsed from the annotation otherwise, and its
  maximum is absent or the integer parsed from the \<^verbatim>\<open>maximum\<close> annotation. That refined
  node is what the enclosing object stores under the field's key (when no later field
  takes the same key).
\<close>

theorem C2_unsigned_minimum:
  assumes "k \<in> {UintK, Uint8K, Uint16K, Uint32K, Uint64K}" and "Typ f = BasicT k nm"
  shows "GenerateSchema um (Typ f) =
           (Some (Schema ''integer'' [] None None None [] None INil INil (Some 0) None), None)
       \<and> (tag_errors um (Tag f) ''integer'' = [] \<longrightarrow> (\<exists>s. field_node um f = Inr s))
       \<and> (\<forall>s. field_node um f = Inr s \<longrightarrow>
              Type s = ''integer''
            \<and> (Lookup (Tag f) ''minimum'' = None \<longrightarrow> Minimum s = Some 0)
            \<and> (\<forall>d. Lookup (Tag f) ''minimum'' = Some d \<longrightarrow>
                  (\<exists>n. Atoi d = Inr n \<and> Minimum s = Some n))
            \<and> (Lookup (Tag f) ''maximum'' = None \<longrightarrow> Maximum s = None)
            \<and> (\<forall>d. Lookup (Tag f) ''maximum'' = Some d \<longrightarrow>
                  (\<exists>n. Atoi d = Inr n \<and> Maximum s = Some n)))
       \<and> (\<forall>pre post sch.
              GenerateSchema um (StructT (pre @ f # post)) = (Some sch, None)
              \<and> field_name f \<notin> field_name ` set post \<longrightarrow>
              (\<exists>ps s. Properties sch = Some ps \<and> map_of ps (field_name f) = Some s
                     \<and> field_node um f = Inr s))"
proof -
  let ?s0 = "Schema ''integer'' [] None None None [] None INil INil (Some 0) None"
  have g: "GenerateSchema um (Typ f) = (Some ?s0, None)"
    using assms by (auto simp: Schema0_def)
  have n: "field_node um f = field_tags um (Tag f) ?s0"
    using assms by (rule field_node_uint)
  have ok: "tag_errors um (Tag f) ''integer'' = [] \<longrightarrow> (\<exists>s. field_node um f = Inr s)"
    using field_tags_Inr [of um "Tag f" ?s0] by (simp add: n)
  have b: "Type s = ''integer''
         \<and> (Lookup (Tag f) ''minimum'' = None \<longrightarrow> Minimum s = Some 0)
         \<and> (\<forall>d. Lookup (Tag f) ''minimum'' = Some d \<longrightarrow>
               (\<exists>n. Atoi d = Inr n \<and> Minimum s = Some n))
         \<and> (Lookup (Tag f) ''maximum'' = None \<longrightarrow> Maximum s = None)
         \<and> (\<forall>d. Lookup (Tag f) ''maximum'' = Some d \<longrightarrow>
               (\<exists>n. Atoi d = Inr n \<and> Maximum s = Some n))"
    if "field_node um f = Inr s" for s
  proof -
    from that have t: "field_tags um (Tag f) ?s0 = Inr s" by (simp add: n)
    show ?thesis
      using field_tags_bounds [OF t] by (auto split: option.splits)
  qed
  have p: "\<exists>ps s. Properties sch = Some ps \<and> map_of ps (field_name f) = Some s
             \<and> field_node um f = Inr s"
    if "GenerateSchema um (StructT (pre @ f # post)) = (Some sch, None)"
      and "field_name f \<notin> field_name ` set post" for pre post sch
  proof -
    from that(1) obtain ps rs where
      sf: "struct_fields um (pre @ f # post) [] [] = Inr (ps, rs)" and
      pr: "Properties sch = (if ps = [] then None else Some ps)"
      by (rule GenerateSchema_StructT_props)
    from struct_fields_last [OF sf that(2)] obtain s where
      s: "field_node um f = Inr s" "map_of ps (field_name f) = Some s" by blast
    then have "ps \<noteq> []" by auto
    with pr s show ?thesis by auto
  qed
  from g ok b p show ?thesis by blast
qed

theorem C2_unsigned_minimum_witness:
  "Uint64K \<in> {UintK, Uint8K, Uint16K, Uint32K, Uint64K}
   \<and> Typ (StructField ''Count'' (BasicT Uint64K ''uint64'')
            [(''json'', ''count''), (''minimum'', ''5''), (''maximum'', ''10'')])
       = BasicT Uint64K ''uint64''
   \<and> field_node Unmarshal_sample
         (StructField ''Count'' (BasicT Uint64K ''uint64'')
            [(''json'', ''count''), (''minimum'', ''5''), (''maximum'', ''10'')])
       = Inr (Schema ''integer'' [] None None None [] None INil INil (Some 5) (Some 10))
   \<and> GenerateSchema Unmarshal_sample
         (StructT [StructField ''Count'' (BasicT Uint64K ''uint64'')
            [(''json'', ''count''), (''minimum'', ''5''), (''maximum'', ''10'')]])
       = (Some (Schema ''object'' [] None
                 (Some [(''count'',
                    Schema ''integer'' [] None None None [] None INil INil (Some 5) (Some 10))])
                 (Some [''count'']) [] None INil INil None None), None)
   \<and> GenerateSchema Unmarshal_sample (BasicT Uint64K ''uint64'')
       = (Some (Schema ''integer'' [] None None None [] None INil INil (Some 0) None), None)"
  using C2_unsigned_minimum [of Uint64K
      "StructField ''Count'' (BasicT Uint64K ''uint64'')
         [(''json'', ''count''), (''minimum'', ''5''), (''maximum'', ''10'')]"
      "''uint64''" Unmarshal_sample]
  by (simp add: field_node_def Schema0_def field_tags_def tag_minimum_def tag_maximum_def
        tag_example_def tag_enum_def tag_description_def Lookup_def Get_def Atoi_def
        is_digit_def digit_val_def field_name_def field_optional_def)

text \<open>
  C6. The claim: \<^verbatim>\<open>required\<close> is duplicate-free, each of its names is a key of
  \<^verbatim>\<open>properties\<close>, and it lists the resolved names of the fields not marked omittable, in
  declaration order. The loop appends one entry for each such field and never looks at the
  entries already there, so two fields with the same serialization name are listed
  twice.
\<close>

theorem C6_required_counterexample:
  "GenerateSchema Unmarshal_sample
     (StructT [StructField ''A'' (BasicT StringK ''string'') [(''json'', ''x'')],
               StructField ''B'' (BasicT StringK ''string'') [(''json'', ''x'')]])
   = (Some (Schema ''object'' [] None
             (Some [(''x'', Schema ''string'' [] None None None [] None INil INil None None)])
             (Some [''x'', ''x'']) [] None INil INil None None), None)
   \<and> \<not> distinct [''x'', ''x'']"
  by (simp add: Schema0_def field_tags_def tag_minimum_def tag_maximum_def
        tag_example_def tag_enum_def tag_description_def Lookup_def Get_def
        field_name_def field_optional_def)

text \<open>
  C6, amended. On every record on which the build succeeds: a non-nil \<^verbatim>\<open>required\<close> is not
  empty and each of its names is a key of \<^verbatim>\<open>properties\<close>, whose keys are pairwise
  different; \<^verbatim>\<open>required\<close> is nil exactly when every field is marked omittable, and
  otherwise it has one entry for each field not marked omittable, in declaration order,
  the entry of a field whose annotation declares a name being that name; the name a
  field's annotation declares is a key of \<^verbatim>\<open>properties\<close>. When the annotation of every
  field declares a name, \<^verbatim>\<open>required\<close> is the list of the resolved names of the fields not
  marked omittable, the keys of \<^verbatim>\<open>properties\<close> are the resolved names of all fields, and
  \<^verbatim>\<open>required\<close> is duplicate-free exactly when the names of the fields not marked omittable
  are pairwise different. Nothing is said of the entry of a field whose annotation
  declares no name.
\<close>

theorem C6_required_list:
  assumes "GenerateSchema um (StructT fs) = (Some sch, None)"
  shows "(\<forall>rs. Required sch = Some rs \<longrightarrow>
            rs \<noteq> [] \<and> (\<exists>ps. Properties sch = Some ps \<and> set rs \<subseteq> fst ` set ps))
       \<and> (\<forall>ps. Properties sch = Some ps \<longrightarrow> distinct (map fst ps))
       \<and> (Required sch = None \<longleftrightarrow> (\<forall>f\<in>set fs. omittable f))
       \<and> (\<forall>rs. Required sch = Some rs \<longrightarrow>
             list_all2 (\<lambda>f n. declares_name f \<longrightarrow> n = resolved_name f)
               (filter (\<lambda>f. \<not> omittable f) fs) rs)
       \<and> (\<forall>ps f. Properties sch = Some ps \<and> f \<in> set fs \<and> declares_name f \<longrightarrow>
             resolved_name f \<in> fst ` set ps)
       \<and> ((\<forall>f\<in>set fs. declares_name f) \<longrightarrow>
            Required sch =
              (if \<forall>f\<in>set fs. omittable f then None
               else Some (map resolved_name (filter (\<lambda>f. \<not> omittable f) fs)))
          \<and> (\<forall>ps. Properties sch = Some ps \<longrightarrow> fst ` set ps = resolved_name ` set fs)
          \<and> (\<forall>rs. Required sch = Some rs \<longrightarrow>
                length rs = length (filter (\<lambda>f. \<not> omittable f) fs)
              \<and> (distinct rs \<longleftrightarrow>
                   distinct (map resolved_name (filter (\<lambda>f. \<not> omittable f) fs)))))"
proof -
  note rq = GenerateSchema_StructT_required [OF assms, unfolded field_optional_omittable]
  note ks = GenerateSchema_StructT_keys [OF assms]
  have a: "rs \<noteq> [] \<and> (\<exists>ps. Properties sch = Some ps \<and> set rs \<subseteq> fst ` set ps)"
    if r: "Required sch = Some rs" for rs
  proof -
    from r rq have rs: "rs = map field_name (filter (\<lambda>f. \<not> omittable f) fs)"
      and ne: "\<not> (\<forall>f\<in>set fs. omittable f)"
      by (auto split: if_splits)
    from ne have "fs \<noteq> []" by auto
    with ks(1) obtain ps where ps: "Properties sch = Some ps" by auto
    from ks(2) [OF ps] have "fst ` set ps = field_name ` set fs" by simp
    with rs have "set rs \<subseteq> fst ` set ps" by auto
    moreover from ne rs have "rs \<noteq> []" by (auto simp: filter_empty_conv)
    ultimately show ?thesis using ps by blast
  qed
  have b: "distinct (map fst ps)" if "Properties sch = Some ps" for ps
    using ks(2) [OF that] by simp
  have n: "Required sch = None \<longleftrightarrow> (\<forall>f\<in>set fs. omittable f)"
    using rq by simp
  have e: "list_all2 (\<lambda>f n. declares_name f \<longrightarrow> n = resolved_name f)
             (filter (\<lambda>f. \<not> omittable f) fs) rs"
    if r: "Required sch = Some rs" for rs
  proof -
    from r rq have rs: "rs = map field_name (filter (\<lambda>f. \<not> omittable f) fs)"
      by (auto split: if_splits)
    show ?thesis
      unfolding rs list_all2_map_same by (simp add: field_name_declared)
  qed
  have k: "resolved_name f \<in> fst ` set ps"
    if "Properties sch = Some ps" and "f \<in> set fs" and "declares_name f" for ps f
  proof -
    from ks(2) [OF that(1)] have "fst ` set ps = field_name ` set fs" by simp
    moreover from that(3) have "field_name f = resolved_name f" by (rule field_name_declared)
    ultimately show ?thesis using that(2) by (metis imageI)
  qed
  have c: "Required sch =
              (if \<forall>f\<in>set fs. omittable f then None
               else Some (map resolved_name (filter (\<lambda>f. \<not> omittable f) fs)))
          \<and> (\<forall>ps. Properties sch = Some ps \<longrightarrow> fst ` set ps = resolved_name ` set fs)
          \<and> (\<forall>rs. Required sch = Some rs \<longrightarrow>
                length rs = length (filter (\<lambda>f. \<not> omittable f) fs)
              \<and> (distinct rs \<longleftrightarrow>
                   distinct (map resolved_name (filter (\<lambda>f. \<not> omittable f) fs))))"
    if an: "\<forall>f\<in>set fs. declares_name f"
  proof -
    from an have nm: "map field_name (filter (\<lambda>f. \<not> omittable f) fs)
                        = map resolved_name (filter (\<lambda>f. \<not> omittable f) fs)"
      by (auto simp: field_name_declared)
    from an have im: "field_name ` set fs = resolved_name ` set fs"
      by (auto simp: field_name_declared intro!: image_cong)
    have r: "Required sch =
              (if \<forall>f\<in>set fs. omittable f then None
               else Some (map resolved_name (filter (\<lambda>f. \<not> omittable f) fs)))"
      using rq nm by simp
    have k: "fst ` set ps = resolved_name ` set fs" if "Properties sch = Some ps" for ps
      using ks(2) [OF that] im by simp
    from r k show ?thesis by (auto split: if_splits)
  qed
  from a b n e k c show ?thesis by blast
qed

theorem C6_required_list_witness:
  "GenerateSchema Unmarshal_sample
     (StructT [StructField ''Id'' (BasicT IntK ''int'') [(''json'', ''id'')],
               StructField ''Note'' (BasicT StringK ''string'') [(''json'', ''note,omitempty'')]])
   = (Some (Schema ''object'' [] None
             (Some [(''id'', Schema ''integer'' [] None None None [] None INil INil None None),
                    (''note'', Schema ''string'' [] None None None [] None INil INil None None)])
             (Some [''id'']) [] None INil INil None None), None)
   \<and> declares_name (StructField ''Id'' (BasicT IntK ''int'') [(''json'', ''id'')])
   \<and> declares_name (StructField ''Note'' (BasicT StringK ''string'')
                       [(''json'', ''note,omitempty'')])
   \<and> resolved_name (StructField ''Id'' (BasicT IntK ''int'') [(''json'', ''id'')]) = ''id''
   \<and> map resolved_name (filter (\<lambda>f. \<not> omittable f)
         [StructField ''Id'' (BasicT IntK ''int'') [(''json'', ''id'')],
          StructField ''Note'' (BasicT StringK ''string'') [(''json'', ''note,omitempty'')]])
       = [''id'']
   \<and> resolved_name (StructField ''Raw'' (BasicT StringK ''string'') [(''json'', '',omitempty'')])
       = ''Raw''"
  using C6_required_list [of Unmarshal_sample
      "[StructField ''Id'' (BasicT IntK ''int'') [(''json'', ''id'')],
        StructField ''Note'' (BasicT StringK ''string'') [(''json'', ''note,omitempty'')]]"
      "Schema ''object'' [] None
             (Some [(''id'', Schema ''integer'' [] None None None [] None INil INil None None),
                    (''note'', Schema ''string'' [] None None None [] None INil INil None None)])
             (Some [''id'']) [] None INil INil None None"]
  by (simp add: Schema0_def field_tags_def tag_minimum_def tag_maximum_def
        tag_example_def tag_enum_def tag_description_def Lookup_def Get_def
        field_name_def field_optional_def resolved_name_def omittable_def declares_name_def)

text \<open>
  C10. A field whose \<^verbatim>\<open>json\<close> annotation has the name part \<^verbatim>\<open>-\<close> is not skipped: its key
  is the text \<^verbatim>\<open>-\<close>; whenever the build of the record succeeds, \<^verbatim>\<open>properties\<close> has that key,
  holding the refined node of a field with that key, and \<^verbatim>\<open>required\<close> contains \<^verbatim>\<open>-\<close> when
  the annotation has no \<^verbatim>\<open>omitempty\<close> option.
\<close>

theorem C10_dash_not_skipped:
  assumes "Lookup (Tag f) ''json'' = Some v" and "Split v CHR '','' = ''-'' # opts"
    and "f \<in> set fs" and "GenerateSchema um (StructT fs) = (Some sch, None)"
  shows "field_name f = ''-''
       \<and> (\<exists>ps s g. Properties sch = Some ps \<and> map_of ps ''-'' = Some s
             \<and> g \<in> set fs \<and> field_name g = ''-'' \<and> field_node um g = Inr s)
       \<and> (''omitempty'' \<notin> set opts \<longrightarrow> (\<exists>rs. Required sch = Some rs \<and> ''-'' \<in> set rs))"
proof -
  have nm: "field_name f = ''-''"
    using assms(1,2) by (simp add: field_name_hd Get_Some)
  have opt: "field_optional f \<longleftrightarrow> ''omitempty'' \<in> set opts"
    using assms(1,2) by (simp add: field_optional_iff Get_Some)
  from assms(4) obtain ps rs where
    sf: "struct_fields um fs [] [] = Inr (ps, rs)" and
    pr: "Properties sch = (if ps = [] then None else Some ps)"
    by (rule GenerateSchema_StructT_props)
  from struct_fields_keys [OF sf] assms(3) nm have "''-'' \<in> fst ` set ps" by force
  then obtain s where s: "map_of ps ''-'' = Some s"
    by (metis domD dom_map_of_conv_image_fst)
  from struct_fields_source [OF sf s] obtain g where
    g: "g \<in> set fs" "field_name g = ''-''" "field_node um g = Inr s" by auto
  from s have "ps \<noteq> []" by auto
  with pr s g have p: "\<exists>ps s g. Properties sch = Some ps \<and> map_of ps ''-'' = Some s
             \<and> g \<in> set fs \<and> field_name g = ''-'' \<and> field_node um g = Inr s"
    by auto
  have r: "\<exists>rs. Required sch = Some rs \<and> ''-'' \<in> set rs" if "''omitempty'' \<notin> set opts"
  proof -
    from that opt have "\<not> field_optional f" by simp
    with assms(3) nm GenerateSchema_StructT_required [OF assms(4)]
    show ?thesis by force
  qed
  from nm p r show ?thesis by blast
qed

theorem C10_dash_not_skipped_witness:
  "Lookup (Tag (StructField ''Secret'' (BasicT StringK ''string'') [(''json'', ''-'')])) ''json''
     = Some ''-''
   \<and> Split ''-'' CHR '','' = ''-'' # []
   \<and> GenerateSchema Unmarshal_sample
        (StructT [StructField ''Secret'' (BasicT StringK ''string'') [(''json'', ''-'')]])
     = (Some (Schema ''object'' [] None
               (Some [(''-'', Schema ''string'' [] None None None [] None INil INil None None)])
               (Some [''-'']) [] None INil INil None None), None)
   \<and> field_name (StructField ''Secret'' (BasicT StringK ''string'') [(''json'', ''-'')]) = ''-''"
  using C10_dash_not_skipped [of "StructField ''Secret'' (BasicT StringK ''string'') [(''json'', ''-'')]"
      "''-''" "[]" "[StructField ''Secret'' (BasicT StringK ''string'') [(''json'', ''-'')]]"
      Unmarshal_sample
      "Schema ''object'' [] None
               (Some [(''-'', Schema ''string'' [] None None None [] None INil INil None None)])
               (Some [''-'']) [] None INil INil None None"]
  by (simp add: Schema0_def field_tags_def tag_minimum_def tag_maximum_def
        tag_example_def tag_enum_def tag_description_def Lookup_def Get_def
        field_name_def field_optional_def)

text \<open>
  C7. The builder of a pointer type is the builder of the referenced type: the result,
  node or error, is the same, so the node carries no trace of the pointer. Wrapping the
  types of any fields of a record in a pointer leaves the result for the record unchanged.
  On success \<^verbatim>\<open>required\<close> lists the keys of the fields without an \<^verbatim>\<open>omitempty\<close> option, and
  that option is read from the \<^verbatim>\<open>json\<close> annotation alone.
\<close>

theorem C7_pointer_transparent:
  "GenerateSchema um (PtrT t) = GenerateSchema um t
   \<and> GenerateSchema um (StructT (map (\<lambda>f. if P f then wrap_ptr f else f) fs))
       = GenerateSchema um (StructT fs)
   \<and> (\<forall>sch. GenerateSchema um (StructT fs) = (Some sch, None) \<longrightarrow>
         Required sch =
           (if \<forall>f\<in>set fs. field_optional f then None
            else Some (map field_name (filter (\<lambda>f. \<not> field_optional f) fs))))
   \<and> (field_optional f \<longleftrightarrow>
         ''omitempty'' \<in> set (tl (Split (Get (Tag f) ''json'') CHR '','')))"
proof -
  have "GenerateSchema um (StructT (map (\<lambda>f. if P f then wrap_ptr f else f) fs))
          = GenerateSchema um (StructT fs)"
    by (simp add: struct_fields_wrap_ptr)
  then show ?thesis
    using GenerateSchema_StructT_required [of um fs] field_optional_iff [of f] by simp
qed

theorem C7_pointer_transparent_witness:
  "GenerateSchema Unmarshal_sample
     (StructT [StructField ''Id'' (PtrT (BasicT IntK ''int'')) [(''json'', ''id'')],
               StructField ''Note'' (BasicT StringK ''string'') [(''json'', ''note,omitempty'')]])
   = (Some (Schema ''object'' [] None
             (Some [(''id'', Schema ''integer'' [] None None None [] None INil INil None None),
                    (''note'', Schema ''string'' [] None None None [] None INil INil None None)])
             (Some [''id'']) [] None INil INil None None), None)
   \<and> GenerateSchema Unmarshal_sample
     (StructT [StructField ''Id'' (BasicT IntK ''int'') [(''json'', ''id'')],
               StructField ''Note'' (BasicT StringK ''string'') [(''json'', ''note,omitempty'')]])
   = (Some (Schema ''object'' [] None
             (Some [(''id'', Schema ''integer'' [] None None None [] None INil INil None None),
                    (''note'', Schema ''string'' [] None None None [] None INil INil None None)])
             (Some [''id'']) [] None INil INil None None), None)"
proof -
  let ?fs = "[StructField ''Id'' (BasicT IntK ''int'') [(''json'', ''id'')],
              StructField ''Note'' (BasicT StringK ''string'') [(''json'', ''note,omitempty'')]]"
  let ?sch = "Schema ''object'' [] None
             (Some [(''id'', Schema ''integer'' [] None None None [] None INil INil None None),
                    (''note'', Schema ''string'' [] None None None [] None INil INil None None)])
             (Some [''id'']) [] None INil INil None None"
  have plain: "GenerateSchema Unmarshal_sample (StructT ?fs) = (Some ?sch, None)"
    by (simp add: Schema0_def field_tags_def tag_minimum_def tag_maximum_def
        tag_example_def tag_enum_def tag_description_def Lookup_def Get_def
        field_name_def field_optional_def)
  from C7_pointer_transparent [of Unmarshal_sample "BasicT IntK ''int''"
      "\<lambda>f. Name f = ''Id''" ?fs "StructField ''Id'' (BasicT IntK ''int'') [(''json'', ''id'')]"]
  have "GenerateSchema Unmarshal_sample
          (StructT (map (\<lambda>f. if Name f = ''Id'' then wrap_ptr f else f) ?fs))
        = GenerateSchema Unmarshal_sample (StructT ?fs)"
    by blast
  then have "GenerateSchema Unmarshal_sample
     (StructT [StructField ''Id'' (PtrT (BasicT IntK ''int'')) [(''json'', ''id'')],
               StructField ''Note'' (BasicT StringK ''string'') [(''json'', ''note,omitempty'')]])
     = GenerateSchema Unmarshal_sample (StructT ?fs)"
    by (simp add: wrap_ptr_def)
  with plain show ?thesis by simp
qed

text \<open>
  C4. A descriptor of a kind without a mapping rule (\<^verbatim>\<open>uintptr\<close>, the complex kinds,
  \<^verbatim>\<open>chan\<close>, \<^verbatim>\<open>func\<close>, \<^verbatim>\<open>interface\<close>, \<^verbatim>\<open>unsafe.Pointer\<close>) makes the builder return no node
  and the error whose message names the kind and the type. When such a descriptor is
  walked inside another descriptor (through struct fields, slices, arrays and pointers),
  its error is one of the failures of the walk, the build of the enclosing descriptor
  returns no node, and the error returned is the first failure of the walk. For every
  descriptor the result is a node and a nil error, when the walk has no failure, or no
  node and the first failure of the walk.
\<close>

theorem C4_unsupported_type:
  assumes "unsupported k" and "BasicT k nm \<in> set (walked t)"
  shows "GenerateSchema um (BasicT k nm) =
           (None, Some (ErrorString (''unsupported type '' @ Kind_String k @ '' from '' @ nm)))
       \<and> ErrorString (''unsupported type '' @ Kind_String k @ '' from '' @ nm)
            \<in> set (errors um t)
       \<and> (\<exists>e. GenerateSchema um t = (None, Some e) \<and> first (errors um t) = Some e)
       \<and> (\<forall>t'. (\<exists>s. GenerateSchema um t' = (Some s, None) \<and> errors um t' = [])
              \<or> (\<exists>e. GenerateSchema um t' = (None, Some e) \<and> first (errors um t') = Some e))"
proof -
  let ?e = "ErrorString (''unsupported type '' @ Kind_String k @ '' from '' @ nm)"
  have a: "GenerateSchema um (BasicT k nm) = (None, Some ?e)"
    using assms(1) by (auto simp: unsupported_def)
  have "?e \<in> set (errors um (BasicT k nm))" using assms(1) by simp
  with errors_walked [OF assms(2)] have b: "?e \<in> set (errors um t)" by blast
  then have c: "\<exists>e. GenerateSchema um t = (None, Some e) \<and> first (errors um t) = Some e"
    by (rule GenerateSchema_fails)
  have d: "(\<exists>s. GenerateSchema um t' = (Some s, None) \<and> errors um t' = [])
         \<or> (\<exists>e. GenerateSchema um t' = (None, Some e) \<and> first (errors um t') = Some e)" for t'
  proof (cases "errors um t'")
    case Nil
    then show ?thesis using GenerateSchema_succeeds [of um t'] by simp
  next
    case (Cons e es)
    then have "e \<in> set (errors um t')" by simp
    then show ?thesis using GenerateSchema_fails by blast
  qed
  from a b c d show ?thesis by blast
qed

theorem C4_unsupported_type_witness:
  "unsupported FuncK
   \<and> BasicT FuncK ''func()''
       \<in> set (walked (StructT
             [StructField ''Id'' (BasicT IntK ''int'') [(''json'', ''id'')],
              StructField ''Hooks'' (SliceT (BasicT FuncK ''func()'')) [(''json'', ''hooks'')],
              StructField ''Limit'' (BasicT IntK ''int'') [(''minimum'', ''abc'')]]))
   \<and> GenerateSchema Unmarshal_sample
         (StructT
             [StructField ''Id'' (BasicT IntK ''int'') [(''json'', ''id'')],
              StructField ''Hooks'' (SliceT (BasicT FuncK ''func()'')) [(''json'', ''hooks'')],
              StructField ''Limit'' (BasicT IntK ''int'') [(''minimum'', ''abc'')]])
       = (None, Some (ErrorString ''unsupported type func from func()''))
   \<and> GenerateSchema Unmarshal_sample (BasicT FuncK ''func()'')
       = (None, Some (ErrorString ''unsupported type func from func()''))"
  using C4_unsupported_type [of FuncK "''func()''"
      "StructT
             [StructField ''Id'' (BasicT IntK ''int'') [(''json'', ''id'')],
              StructField ''Hooks'' (SliceT (BasicT FuncK ''func()'')) [(''json'', ''hooks'')],
              StructField ''Limit'' (BasicT IntK ''int'') [(''minimum'', ''abc'')]]"
      Unmarshal_sample]
  by (simp add: unsupported_def Schema0_def field_tags_def tag_minimum_def tag_maximum_def
        tag_example_def tag_enum_def tag_description_def Lookup_def Get_def
        field_name_def field_optional_def)

text \<open>
  C3. The claim: a \<^verbatim>\<open>minimum\<close> or \<^verbatim>\<open>maximum\<close> annotation that is no integer fails the build
  with an error naming the field and the offending text. The source returns the error of
  \<^verbatim>\<open>strconv.Atoi\<close> as it is: it carries the function name, the text and the cause, and
  nothing of the field. Two records that differ only in the name of the field fail with
  the same error.
\<close>

theorem C3_error_counterexample:
  "GenerateSchema Unmarshal_sample
     (StructT [StructField ''Limit'' (BasicT IntK ''int'') [(''minimum'', ''abc'')]])
     = (None, Some (NumError ''Atoi'' ''abc'' ErrSyntax))
   \<and> GenerateSchema Unmarshal_sample
     (StructT [StructField ''Offset'' (BasicT IntK ''int'') [(''minimum'', ''abc'')]])
     = (None, Some (NumError ''Atoi'' ''abc'' ErrSyntax))"
  by (simp add: Schema0_def field_tags_def tag_minimum_def tag_maximum_def
        tag_example_def tag_enum_def tag_description_def Lookup_def Get_def
        field_name_def field_optional_def Atoi_def is_digit_def digit_val_def)

text \<open>
  C3, amended. Let a field of a record that is walked inside a descriptor carry a
  \<^verbatim>\<open>minimum\<close> or \<^verbatim>\<open>maximum\<close> annotation whose text \<^verbatim>\<open>Atoi\<close> rejects. The error of \<^verbatim>\<open>Atoi\<close>
  is a \<^verbatim>\<open>NumError\<close> of the function \<^verbatim>\<open>Atoi\<close> with the offending text; it is one of the
  failures of the walk; the build of the descriptor returns no node and the first failure
  of the walk. When nothing fails before the annotation (the fields before it, the type
  of the field, and its \<^verbatim>\<open>minimum\<close> annotation when the text is the \<^verbatim>\<open>maximum\<close>), the build
  of the record returns no node and exactly the error of \<^verbatim>\<open>Atoi\<close>.
\<close>

theorem C3_malformed_bound:
  assumes "StructT fs \<in> set (walked t)" and "f \<in> set fs"
    and "key = ''minimum'' \<or> key = ''maximum''"
    and "Lookup (Tag f) key = Some d" and "Atoi d = Inl e"
  shows "(\<exists>cause. e = NumError ''Atoi'' d cause)
       \<and> e \<in> set (errors um t)
       \<and> (\<exists>e'. GenerateSchema um t = (None, Some e') \<and> first (errors um t) = Some e')
       \<and> (\<forall>pre post.
              fs = pre @ f # post \<and> errors_fields um pre = [] \<and> errors um (Typ f) = []
              \<and> (key = ''maximum'' \<longrightarrow> atoi_errors (Tag f) ''minimum'' = [])
            \<longrightarrow> GenerateSchema um (StructT fs) = (None, Some e))"
proof -
  have a: "\<exists>cause. e = NumError ''Atoi'' d cause"
    using assms(5) by (rule Atoi_error_shape)
  have k: "atoi_errors (Tag f) key = [e]"
    using assms(4,5) by (simp add: atoi_errors_def)
  with assms(3) have "e \<in> set (tag_errors um (Tag f) (node_Type (Typ f)))"
    by (auto simp: tag_errors_def)
  with assms(1,2) have b: "e \<in> set (errors um t)" by (rule tag_error_in_walk)
  then have c: "\<exists>e'. GenerateSchema um t = (None, Some e') \<and> first (errors um t) = Some e'"
    by (rule GenerateSchema_fails)
  have d: "GenerateSchema um (StructT fs) = (None, Some e)"
    if "fs = pre @ f # post" and "errors_fields um pre = []" and "errors um (Typ f) = []"
      and "key = ''maximum'' \<longrightarrow> atoi_errors (Tag f) ''minimum'' = []" for pre post
  proof -
    have "first (field_errors um f) = Some e"
      using assms(3) k that(3,4) by (auto simp: field_errors_def tag_errors_def)
    with that(1,2) show ?thesis by (simp only: first_field_error)
  qed
  from a b c d show ?thesis by blast
qed

theorem C3_malformed_bound_witness:
  "StructT [StructField ''Id'' (BasicT IntK ''int'') [(''json'', ''id'')],
            StructField ''Limit'' (BasicT IntK ''int'') [(''json'', ''limit''), (''minimum'', ''abc'')]]
     \<in> set (walked (SliceT (StructT
          [StructField ''Id'' (BasicT IntK ''int'') [(''json'', ''id'')],
           StructField ''Limit'' (BasicT IntK ''int'') [(''json'', ''limit''), (''minimum'', ''abc'')]])))
   \<and> Lookup [(''json'', ''limit''), (''minimum'', ''abc'')] ''minimum'' = Some ''abc''
   \<and> Atoi ''abc'' = Inl (NumError ''Atoi'' ''abc'' ErrSyntax)
   \<and> GenerateSchema Unmarshal_sample (SliceT (StructT
          [StructField ''Id'' (BasicT IntK ''int'') [(''json'', ''id'')],
           StructField ''Limit'' (BasicT IntK ''int'') [(''json'', ''limit''), (''minimum'', ''abc'')]]))
       = (None, Some (NumError ''Atoi'' ''abc'' ErrSyntax))"
  using C3_malformed_bound [of
      "[StructField ''Id'' (BasicT IntK ''int'') [(''json'', ''id'')],
        StructField ''Limit'' (BasicT IntK ''int'') [(''json'', ''limit''), (''minimum'', ''abc'')]]"
      "SliceT (StructT
          [StructField ''Id'' (BasicT IntK ''int'') [(''json'', ''id'')],
           StructField ''Limit'' (BasicT IntK ''int'') [(''json'', ''limit''), (''minimum'', ''abc'')]])"
      "StructField ''Limit'' (BasicT IntK ''int'') [(''json'', ''limit''), (''minimum'', ''abc'')]"
      "''minimum''" "''abc''" "NumError ''Atoi'' ''abc'' ErrSyntax" Unmarshal_sample]
  by (simp add: Schema0_def field_tags_def tag_minimum_def tag_maximum_def
        tag_example_def tag_enum_def tag_description_def Lookup_def Get_def
        field_name_def field_optional_def Atoi_def is_digit_def digit_val_def)

text \<open>
  C5. The claim: a failing example of a non-string field fails the build with an error
  naming the field. The source returns the error of \<^verbatim>\<open>json.Unmarshal\<close> as it is, and the
  decoder is given the annotation text only. Two records that differ only in the name of
  the field fail with the same error.
\<close>

theorem C5_error_counterexample:
  "GenerateSchema Unmarshal_sample
     (StructT [StructField ''Done'' (BasicT BoolK ''bool'') [(''example'', ''abc'')]])
     = (None, Some (SyntaxError ''invalid character 'a' looking for beginning of value'' 1))
   \<and> GenerateSchema Unmarshal_sample
     (StructT [StructField ''Open'' (BasicT BoolK ''bool'') [(''example'', ''abc'')]])
     = (None, Some (SyntaxError ''invalid character 'a' looking for beginning of value'' 1))"
  by (simp add: Schema0_def field_tags_def tag_minimum_def tag_maximum_def
        tag_example_def tag_enum_def tag_description_def Lookup_def Get_def
        field_name_def field_optional_def Unmarshal_sample_def)

text \<open>
  C5, amended. Let a field carry an \<^verbatim>\<open>example\<close> annotation. Whenever its annotations are
  accepted, the refined node has the kind text of the field's type; when that is
  \<^verbatim>\<open>string\<close> the example is the annotation text itself, otherwise it is the value the
  decoder returned for the text. For a string node the example is never a failure of the
  walk. For any other node, a text the decoder rejects makes the decoder's error a failure
  of the walk of every descriptor in which the record is walked, whose build returns no
  node and the first failure of the walk; when nothing fails before the example (the
  fields before it, the type of the field and its bound annotations), the build of the
  record returns no node and exactly the decoder's error.
\<close>

theorem C5_example_annotation:
  assumes "Lookup (Tag f) ''example'' = Some x"
  shows "(\<forall>s. field_node um f = Inr s \<longrightarrow>
            Type s = node_Type (Typ f)
          \<and> (Type s = ''string'' \<longrightarrow> Example s = IString x)
          \<and> (Type s \<noteq> ''string'' \<longrightarrow> um x = Inr (Example s)))
       \<and> (node_Type (Typ f) = ''string'' \<longrightarrow>
            example_errors um (Tag f) (node_Type (Typ f)) = [])
       \<and> (\<forall>err. node_Type (Typ f) \<noteq> ''string'' \<and> um x = Inl err \<longrightarrow>
            (\<forall>fs t. f \<in> set fs \<and> StructT fs \<in> set (walked t) \<longrightarrow>
               err \<in> set (errors um t)
             \<and> (\<exists>e'. GenerateSchema um t = (None, Some e') \<and> first (errors um t) = Some e'))
          \<and> (\<forall>pre post.
               errors_fields um pre = [] \<and> errors um (Typ f) = []
               \<and> atoi_errors (Tag f) ''minimum'' = [] \<and> atoi_errors (Tag f) ''maximum'' = []
             \<longrightarrow> GenerateSchema um (StructT (pre @ f # post)) = (None, Some err)))"
proof -
  have a: "Type s = node_Type (Typ f)
          \<and> (Type s = ''string'' \<longrightarrow> Example s = IString x)
          \<and> (Type s \<noteq> ''string'' \<longrightarrow> um x = Inr (Example s))"
    if n: "field_node um f = Inr s" for s
  proof -
    from n obtain s0 where t: "field_tags um (Tag f) s0 = Inr s"
      by (auto simp: field_node_Inr)
    from field_tags_example [OF t assms] field_node_Type [OF n] show ?thesis by blast
  qed
  have b: "example_errors um (Tag f) (node_Type (Typ f)) = []"
    if "node_Type (Typ f) = ''string''"
    using that assms by (simp add: example_errors_def)
  have c: "(\<forall>fs t. f \<in> set fs \<and> StructT fs \<in> set (walked t) \<longrightarrow>
               err \<in> set (errors um t)
             \<and> (\<exists>e'. GenerateSchema um t = (None, Some e') \<and> first (errors um t) = Some e'))
          \<and> (\<forall>pre post.
               errors_fields um pre = [] \<and> errors um (Typ f) = []
               \<and> atoi_errors (Tag f) ''minimum'' = [] \<and> atoi_errors (Tag f) ''maximum'' = []
             \<longrightarrow> GenerateSchema um (StructT (pre @ f # post)) = (None, Some err))"
    if ns: "node_Type (Typ f) \<noteq> ''string''" and er: "um x = Inl err" for err
  proof -
    have ex: "example_errors um (Tag f) (node_Type (Typ f)) = [err]"
      using ns er assms by (simp add: example_errors_def)
    then have m: "err \<in> set (tag_errors um (Tag f) (node_Type (Typ f)))"
      by (simp add: tag_errors_def)
    have c1: "err \<in> set (errors um t)
             \<and> (\<exists>e'. GenerateSchema um t = (None, Some e') \<and> first (errors um t) = Some e')"
      if "f \<in> set fs" and "StructT fs \<in> set (walked t)" for fs t
    proof -
      from that(2,1) m have "err \<in> set (errors um t)" by (rule tag_error_in_walk)
      with GenerateSchema_fails [OF this] show ?thesis by blast
    qed
    have c2: "GenerateSchema um (StructT (pre @ f # post)) = (None, Some err)"
      if "errors_fields um pre = []" and "errors um (Typ f) = []"
        and "atoi_errors (Tag f) ''minimum'' = []" and "atoi_errors (Tag f) ''maximum'' = []"
      for pre post
    proof -
      have "first (field_errors um f) = Some err"
        using that(2,3,4) ex by (simp add: field_errors_def tag_errors_def)
      with that(1) show ?thesis by (simp only: first_field_error)
    qed
    from c1 c2 show ?thesis by blast
  qed
  from a b c show ?thesis by blast
qed

theorem C5_example_annotation_witness:
  "Lookup [(''example'', ''true'')] ''example'' = Some ''true''
   \<and> field_node Unmarshal_sample
        (StructField ''Title'' (BasicT StringK ''string'') [(''example'', ''true'')])
       = Inr (Schema ''string'' [] None None None [] None INil (IString ''true'') None None)
   \<and> field_node Unmarshal_sample
        (StructField ''Done'' (BasicT BoolK ''bool'') [(''example'', ''true'')])
       = Inr (Schema ''boolean'' [] None None None [] None INil (IBool True) None None)
   \<and> field_node Unmarshal_sample
        (StructField ''Count'' (BasicT IntK ''int'') [(''example'', ''42'')])
       = Inr (Schema ''integer'' [] None None None [] None INil
                (IFloat64 0x4045000000000000) None None)
   \<and> Unmarshal_sample ''abc''
       = Inl (SyntaxError ''invalid character 'a' looking for beginning of value'' 1)
   \<and> GenerateSchema Unmarshal_sample
        (StructT [StructField ''Done'' (BasicT BoolK ''bool'') [(''example'', ''abc'')]])
       = (None, Some (SyntaxError ''invalid character 'a' looking for beginning of value'' 1))
   \<and> GenerateSchema Unmarshal_sample
        (StructT [StructField ''Title'' (BasicT StringK ''string'') [(''example'', ''abc'')]])
       = (Some (Schema ''object'' [] None
                 (Some [([], Schema ''string'' [] None None None [] None INil
                               (IString ''abc'') None None)])
                 (Some [[]]) [] None INil INil None None), None)"
  using C5_example_annotation [of
      "StructField ''Done'' (BasicT BoolK ''bool'') [(''example'', ''abc'')]" "''abc''"
      Unmarshal_sample]
    C5_example_annotation [of
      "StructField ''Title'' (BasicT StringK ''string'') [(''example'', ''true'')]" "''true''"
      Unmarshal_sample]
  by (simp add: field_node_def Schema0_def field_tags_def tag_minimum_def tag_maximum_def
        tag_example_def tag_enum_def tag_description_def Lookup_def Get_def
        field_name_def field_optional_def Unmarshal_sample_def)

text \<open>
  C9. Two calls of the builder on the same descriptor, from any two stores (the second
  may be the store the first call left): both return the same error, the one the builder
  on values returns, or both return addresses whose trees spell out one and the same
  node, the one the builder on values returns, and no other. The addresses returned are
  new, neither call changes a cell that existed before it, and the tree of the first call
  is still there after the second.
\<close>

theorem C9_deterministic:
  assumes "GenerateSchema_st um t h1 = ((p1, e1), h1')"
    and "GenerateSchema_st um t h2 = ((p2, e2), h2')"
  shows "e1 = e2 \<and> e1 = snd (GenerateSchema um t)
       \<and> take (length h1) h1' = h1 \<and> take (length h2) h2' = h2
       \<and> (case fst (GenerateSchema um t) of
             None \<Rightarrow> p1 = None \<and> p2 = None \<and> e1 \<noteq> None
           | Some s \<Rightarrow>
               e1 = None
             \<and> (\<exists>a1 a2. p1 = Some a1 \<and> p2 = Some a2
                    \<and> length h1 \<le> a1 \<and> length h2 \<le> a2
                    \<and> repr h1' a1 s \<and> repr h2' a2 s
                    \<and> (\<forall>s'. repr h1' a1 s' \<or> repr h2' a2 s' \<longrightarrow> s' = s)
                    \<and> (h2 = h1' \<longrightarrow> repr h2' a1 s)))"
proof -
  from GenerateSchema_st_refines [of h1 um t] assms(1)
  have r1: "refines h1 ((p1, e1), h1') (GenerateSchema um t)" by simp
  from GenerateSchema_st_refines [of h2 um t] assms(2)
  have r2: "refines h2 ((p2, e2), h2') (GenerateSchema um t)" by simp
  from r1 r2 have e: "e1 = snd (GenerateSchema um t)" "e2 = snd (GenerateSchema um t)"
    by (simp_all add: refines_def)
  from r1 r2 have ag: "agree_from 0 h1 h1'" "agree_from 0 h2 h2'"
    by (simp_all add: refines_def)
  then have tk: "take (length h1) h1' = h1" "take (length h2) h2' = h2"
    by (simp_all add: agree_from_0_take)
  consider s where "GenerateSchema um t = (Some s, None)"
    | err where "GenerateSchema um t = (None, Some err)"
    using GenerateSchema_shape [of um t] by blast
  then show ?thesis
  proof cases
    case 2
    with r1 r2 have "p1 = None" "p2 = None" by (simp_all add: refines_def)
    with 2 e tk show ?thesis by simp
  next
    case 1
    with r1 obtain a1 where a1: "p1 = Some a1" "repr h1' a1 s" "length h1 \<le> a1"
      by (auto simp: refines_def)
    from 1 r2 obtain a2 where a2: "p2 = Some a2" "repr h2' a2 s" "length h2 \<le> a2"
      by (auto simp: refines_def)
    have u: "s' = s" if "repr h1' a1 s' \<or> repr h2' a2 s'" for s'
      using that a1(2) a2(2) by (auto dest: repr_unique(1))
    have k: "repr h2' a1 s" if "h2 = h1'"
    proof -
      from ag(2) that have "agree_from a1 h1' h2'" by (auto intro: agree_from_mono)
      with a1(2) show ?thesis by (rule repr_agree(1))
    qed
    from 1 e tk a1 a2 u k show ?thesis by auto
  qed
qed

theorem C9_deterministic_witness:
  "GenerateSchema_st Unmarshal_sample (SliceT (BasicT UintK ''uint'')) []
     = ((Some 0, None),
        [cell0\<lparr>cType := ''array'', cItems := Some 2\<rparr>, cell0,
         cell0\<lparr>cType := ''integer'', cMinimum := Some 0\<rparr>])
   \<and> GenerateSchema_st Unmarshal_sample (SliceT (BasicT UintK ''uint''))
        [cell0\<lparr>cType := ''array'', cItems := Some 2\<rparr>, cell0,
         cell0\<lparr>cType := ''integer'', cMinimum := Some 0\<rparr>]
     = ((Some 3, None),
        [cell0\<lparr>cType := ''array'', cItems := Some 2\<rparr>, cell0,
         cell0\<lparr>cType := ''integer'', cMinimum := Some 0\<rparr>,
         cell0\<lparr>cType := ''array'', cItems := Some 5\<rparr>, cell0,
         cell0\<lparr>cType := ''integer'', cMinimum := Some 0\<rparr>])
   \<and> GenerateSchema Unmarshal_sample (SliceT (BasicT UintK ''uint''))
     = (Some (Schema ''array'' []
               (Some (Schema ''integer'' [] None None None [] None INil INil (Some 0) None))
               None None [] None INil INil None None), None)
   \<and> repr [cell0\<lparr>cType := ''array'', cItems := Some 2\<rparr>, cell0,
            cell0\<lparr>cType := ''integer'', cMinimum := Some 0\<rparr>,
            cell0\<lparr>cType := ''array'', cItems := Some 5\<rparr>, cell0,
            cell0\<lparr>cType := ''integer'', cMinimum := Some 0\<rparr>] 3
        (Schema ''array'' []
               (Some (Schema ''integer'' [] None None None [] None INil INil (Some 0) None))
               None None [] None INil INil None None)
   \<and> repr [cell0\<lparr>cType := ''array'', cItems := Some 2\<rparr>, cell0,
            cell0\<lparr>cType := ''integer'', cMinimum := Some 0\<rparr>,
            cell0\<lparr>cType := ''array'', cItems := Some 5\<rparr>, cell0,
            cell0\<lparr>cType := ''integer'', cMinimum := Some 0\<rparr>] 0
        (Schema ''array'' []
               (Some (Schema ''integer'' [] None None None [] None INil INil (Some 0) None))
               None None [] None INil INil None None)"
proof -
  let ?t = "SliceT (BasicT UintK ''uint'')"
  let ?h1 = "[cell0\<lparr>cType := ''array'', cItems := Some 2\<rparr>, cell0,
              cell0\<lparr>cType := ''integer'', cMinimum := Some 0\<rparr>]"
  let ?h2 = "[cell0\<lparr>cType := ''array'', cItems := Some 2\<rparr>, cell0,
              cell0\<lparr>cType := ''integer'', cMinimum := Some 0\<rparr>,
              cell0\<lparr>cType := ''array'', cItems := Some 5\<rparr>, cell0,
              cell0\<lparr>cType := ''integer'', cMinimum := Some 0\<rparr>]"
  have r1: "GenerateSchema_st Unmarshal_sample ?t [] = ((Some 0, None), ?h1)"
    by (simp add: new_def store_def eval_nat_numeral)
  have r2: "GenerateSchema_st Unmarshal_sample ?t ?h1 = ((Some 3, None), ?h2)"
    by (simp add: new_def store_def eval_nat_numeral)
  have g: "GenerateSchema Unmarshal_sample ?t
     = (Some (Schema ''array'' []
               (Some (Schema ''integer'' [] None None None [] None INil INil (Some 0) None))
               None None [] None INil INil None None), None)"
    by (simp add: Schema0_def)
  from C9_deterministic [OF r1 r2] r1 r2 g show ?thesis
    by simp
qed

end
